theory Spec2Isabelle
  imports Main "HOL-Library.AList"
begin

section \<open>Data model\<close>

text \<open>
  The orchestrator keeps two JSON documents (\<open>agents.json\<close>, \<open>jobs.json\<close>) and one JSON
  file per environment bundle. JSON values are what \<open>json.load\<close> returns; Python's \<open>None\<close>
  is JSON \<open>null\<close>. A Python \<open>dict\<close> with string keys is an association list in insertion
  order: \<open>d[k] = v\<close> is \<open>AList.update k v d\<close> (replace in place, or append), \<open>d.get(k)\<close> is
  \<open>dict_get d k\<close>.

  A number with a fraction or an exponent is a Python \<open>float\<close>: the finite ones are
  \<open>m * 2 ^ e\<close>, and \<open>json.load\<close> also returns the three non-finite ones (\<open>1e999\<close> is read as
  infinity; the literals \<open>Infinity\<close>, \<open>-Infinity\<close> and \<open>NaN\<close> are accepted).

  A Python \<open>str\<close> is held as its UTF-8 bytes. A surrogate code point, which \<open>json.load\<close>
  returns for an unpaired escape such as \<open>\ud800\<close>, is held as the three bytes that the
  \<open>surrogatepass\<close> handler gives it: \<open>0xED\<close>, a byte from \<open>0xA0\<close> to \<open>0xBF\<close>, and one more.
\<close>

datatype pyfloat = Finite int int | PosInfinity | NegInfinity | NaN

datatype json =
    JNull
  | JBool bool
  | JInt int
  | JFloat pyfloat
  | JStr string
  | JArr "json list"
  | JObj "(string \<times> json) list"

type_synonym pydict = "(string \<times> json) list"

text \<open>
  The agents and jobs documents are objects whose members are objects: this is the only
  shape the program ever writes.
\<close>

type_synonym document = "(string \<times> pydict) list"

text \<open>
  What the file system holds at a path: nothing, bytes that \<open>json.load\<close> rejects, or bytes
  that \<open>json.load\<close> parses to a value (\<open>json.dump\<close> followed by \<open>json.load\<close> is taken to
  give the value back).
\<close>

datatype 'a on_disk = Absent | Malformed | Content 'a

datatype error =
    HTTPException nat string
  | RuntimeError
  | JSONDecodeError
  | TypeError
  | ValueError
  | UnicodeEncodeError

text \<open>
  The storage root \<open>ORCH_B_STORAGE\<close>: \<open>AGENTS_FILE\<close>, \<open>JOBS_FILE\<close> and the directory \<open>envs/\<close>,
  whose file \<open>name.json\<close> is \<open>envs_dir\<close> at \<open>name\<close>. Neither directory is a symbolic link.
\<close>

record state =
  agents_file :: "document on_disk"
  jobs_file :: "document on_disk"
  envs_dir :: "string \<Rightarrow> json on_disk"

section \<open>Python helpers\<close>

definition dict_get :: "pydict \<Rightarrow> string \<Rightarrow> json" where
  "dict_get d k = (case map_of d k of None \<Rightarrow> JNull | Some v \<Rightarrow> v)"

definition dict_get_default :: "pydict \<Rightarrow> string \<Rightarrow> json \<Rightarrow> json" where
  "dict_get_default d k dflt = (case map_of d k of None \<Rightarrow> dflt | Some v \<Rightarrow> v)"

text \<open>\<open>not s\<close> for an optional string: \<open>None\<close> and the empty string are falsy.\<close>

definition py_not :: "string option \<Rightarrow> bool" where
  "py_not s = (s = None \<or> s = Some [])"

text \<open>
  \<open>x in d\<close> for a dict \<open>d\<close> with string keys: a list or a dict is unhashable
  (\<open>TypeError\<close>); \<open>None\<close>, a boolean or a number is hashable and equal to no key.
\<close>

fun py_in :: "json \<Rightarrow> (string \<times> 'v) list \<Rightarrow> error + bool" where
  "py_in (JStr s) d = Inr (s \<in> fst ` set d)"
| "py_in (JArr xs) d = Inl TypeError"
| "py_in (JObj kvs) d = Inl TypeError"
| "py_in v d = Inr False"

section \<open>File storage: \<open>read_json\<close>, \<open>write_json\<close>\<close>

definition read_json :: "(string \<times> 'v) list on_disk \<Rightarrow> error + (string \<times> 'v) list" where
  "read_json f =
     (case f of
        Absent \<Rightarrow> Inr []
      | Malformed \<Rightarrow> Inl RuntimeError
      | Content d \<Rightarrow> Inr d)"

definition write_json :: "'a \<Rightarrow> 'a on_disk" where
  "write_json data = Content data"

section \<open>Admin and agent credentials\<close>

definition require_admin :: "string option \<Rightarrow> string option \<Rightarrow> error + unit" where
  "require_admin ADMIN_API_TOKEN token_header =
     (if \<not> py_not ADMIN_API_TOKEN then
        (if py_not token_header \<or> token_header \<noteq> ADMIN_API_TOKEN
         then Inl (HTTPException 403 ''invalid admin token'')
         else Inr ())
      else Inr ())"

text \<open>
  The loop \<open>for aid, a in agents.items(): if a.get("token") == x_agent_token: ...; break\<close>
  that \<open>poll_jobs\<close>, \<open>report\<close> and \<open>download_env\<close> each run: the first agent whose token
  matches, or \<open>None\<close>.
\<close>

fun find_agent :: "document \<Rightarrow> string \<Rightarrow> string option" where
  "find_agent [] tok = None"
| "find_agent ((aid, a) # rest) tok =
     (if dict_get a ''token'' = JStr tok then Some aid else find_agent rest tok)"

text \<open>
  The common prefix of the three agent endpoints: the header check, the read of the
  agents document, the loop and the check of its result.
\<close>

definition agent_auth :: "state \<Rightarrow> string option \<Rightarrow> error + (document \<times> string)" where
  "agent_auth st x_agent_token =
     (case x_agent_token of
        None \<Rightarrow> Inl (HTTPException 403 ''missing agent token'')
      | Some tok \<Rightarrow>
          if tok = [] then Inl (HTTPException 403 ''missing agent token'')
          else
            (case read_json (agents_file st) of
               Inl e \<Rightarrow> Inl e
             | Inr agents \<Rightarrow>
                 (case find_agent agents tok of
                    None \<Rightarrow> Inl (HTTPException 403 ''invalid agent token'')
                  | Some agent_id \<Rightarrow>
                      if agent_id = [] then Inl (HTTPException 403 ''invalid agent token'')
                      else Inr (agents, agent_id))))"

section \<open>Endpoints\<close>

record register_req =
  hostname :: string
  ip :: "string option"
  ssh_pubkey :: "string option"
  meta :: "pydict option"

text \<open>
  \<open>uuid.uuid4()\<close> and \<open>time.time()\<close> are inputs: each call of the source is one argument
  of the model, in the order of the calls.
\<close>

definition register ::
  "state \<Rightarrow> register_req \<Rightarrow> string \<Rightarrow> string \<Rightarrow> int \<Rightarrow> int \<Rightarrow> state \<times> (error + string \<times> string)"
where
  "register st req agent_id agent_token t_created t_seen =
     (case read_json (agents_file st) of
        Inl e \<Rightarrow> (st, Inl e)
      | Inr agents \<Rightarrow>
          let a = [(''agent_id'', JStr agent_id),
                   (''token'', JStr agent_token),
                   (''hostname'', JStr (hostname req)),
                   (''ip'', JStr (case ip req of None \<Rightarrow> [] | Some s \<Rightarrow> s)),
                   (''ssh_pubkey'', JStr (case ssh_pubkey req of None \<Rightarrow> [] | Some s \<Rightarrow> s)),
                   (''meta'', JObj (case meta req of None \<Rightarrow> [] | Some m \<Rightarrow> m)),
                   (''created'', JInt t_created),
                   (''last_seen'', JInt t_seen)]
          in (st\<lparr>agents_file := write_json (AList.update agent_id a agents)\<rparr>,
              Inr (agent_id, agent_token)))"

definition list_agents :: "string option \<Rightarrow> state \<Rightarrow> string option \<Rightarrow> state \<times> (error + document)" where
  "list_agents ADMIN_API_TOKEN st x_admin_token =
     (case require_admin ADMIN_API_TOKEN x_admin_token of
        Inl e \<Rightarrow> (st, Inl e)
      | Inr u \<Rightarrow> (st, read_json (agents_file st)))"

definition create_job ::
  "string option \<Rightarrow> state \<Rightarrow> pydict \<Rightarrow> string option \<Rightarrow> string \<Rightarrow> int \<Rightarrow> int
    \<Rightarrow> state \<times> (error + string)"
where
  "create_job ADMIN_API_TOKEN st payload x_admin_token job_id t_created t_updated =
     (case require_admin ADMIN_API_TOKEN x_admin_token of
        Inl e \<Rightarrow> (st, Inl e)
      | Inr u \<Rightarrow>
     (case read_json (agents_file st) of
        Inl e \<Rightarrow> (st, Inl e)
      | Inr agents \<Rightarrow>
     (case read_json (jobs_file st) of
        Inl e \<Rightarrow> (st, Inl e)
      | Inr jobs \<Rightarrow>
          let agent_id = dict_get payload ''agent_id'' in
          (case py_in agent_id agents of
             Inl e \<Rightarrow> (st, Inl e)
           | Inr present \<Rightarrow>
               if \<not> present then (st, Inl (HTTPException 404 ''agent not found''))
               else
                 let args = dict_get_default payload ''args'' (JArr []);
                     env_token = dict_get payload ''env_token'';
                     is_spa = dict_get_default payload ''is_spa'' (JBool False);
                     job = [(''job_id'', JStr job_id),
                            (''agent_id'', agent_id),
                            (''args'', args),
                            (''is_spa'', is_spa),
                            (''env_token'', env_token),
                            (''status'', JStr ''pending''),
                            (''created'', JInt t_created),
                            (''updated'', JInt t_updated)]
                 in (st\<lparr>jobs_file := write_json (AList.update job_id job jobs)\<rparr>,
                     Inr job_id)))))"

definition list_jobs :: "string option \<Rightarrow> state \<Rightarrow> string option \<Rightarrow> state \<times> (error + document)" where
  "list_jobs ADMIN_API_TOKEN st x_admin_token =
     (case require_admin ADMIN_API_TOKEN x_admin_token of
        Inl e \<Rightarrow> (st, Inl e)
      | Inr u \<Rightarrow> (st, read_json (jobs_file st)))"

text \<open>The loop of \<open>poll_jobs\<close> that collects the pending jobs of one agent, in document order.\<close>

fun pending :: "document \<Rightarrow> string \<Rightarrow> pydict list" where
  "pending [] agent_id = []"
| "pending ((jid, job) # rest) agent_id =
     (if dict_get job ''agent_id'' = JStr agent_id \<and> dict_get job ''status'' = JStr ''pending''
      then job # pending rest agent_id
      else pending rest agent_id)"

text \<open>
  \<open>agents[agent_id]["last_seen"] = ...\<close>: \<open>agent_id\<close> is a key the loop has just found, so
  the lookup cannot raise.
\<close>

definition touch :: "document \<Rightarrow> string \<Rightarrow> int \<Rightarrow> document" where
  "touch agents agent_id now =
     (case map_of agents agent_id of
        None \<Rightarrow> agents
      | Some a \<Rightarrow> AList.update agent_id (AList.update ''last_seen'' (JInt now) a) agents)"

definition poll_jobs :: "state \<Rightarrow> string option \<Rightarrow> int \<Rightarrow> state \<times> (error + pydict list)" where
  "poll_jobs st x_agent_token now =
     (case agent_auth st x_agent_token of
        Inl e \<Rightarrow> (st, Inl e)
      | Inr (agents, agent_id) \<Rightarrow>
          let st' = st\<lparr>agents_file := write_json (touch agents agent_id now)\<rparr> in
          (case read_json (jobs_file st') of
             Inl e \<Rightarrow> (st', Inl e)
           | Inr jobs \<Rightarrow> (st', Inr (pending jobs agent_id))))"

record report_req =
  job_id :: string
  status :: string
  output_text :: "string option"

text \<open>The three assignments to the job found under \<open>req.job_id\<close>.\<close>

definition reported :: "pydict \<Rightarrow> report_req \<Rightarrow> int \<Rightarrow> pydict" where
  "reported job req now =
     AList.update ''updated'' (JInt now)
       (AList.update ''output'' (case output_text req of None \<Rightarrow> JNull | Some s \<Rightarrow> JStr s)
          (AList.update ''status'' (JStr (status req)) job))"

definition report :: "state \<Rightarrow> report_req \<Rightarrow> string option \<Rightarrow> int \<Rightarrow> state \<times> (error + unit)" where
  "report st req x_agent_token now =
     (case agent_auth st x_agent_token of
        Inl e \<Rightarrow> (st, Inl e)
      | Inr (agents, agent_id) \<Rightarrow>
     (case read_json (jobs_file st) of
        Inl e \<Rightarrow> (st, Inl e)
      | Inr jobs \<Rightarrow>
          (case map_of jobs (job_id req) of
             None \<Rightarrow> (st, Inl (HTTPException 404 ''job not found''))
           | Some job \<Rightarrow>
               if dict_get job ''agent_id'' \<noteq> JStr agent_id
               then (st, Inl (HTTPException 403 ''job does not belong to this agent''))
               else (st\<lparr>jobs_file := write_json (AList.update (job_id req) (reported job req now) jobs)\<rparr>,
                     Inr ()))))"

text \<open>
  \<open>upload_env_file\<close>: \<open>env_file\<close> is the uploaded file, given by what \<open>json.loads\<close> makes of
  its contents (\<open>None\<close> when it raises); \<open>env_json\<close> is the raw JSON body.
\<close>

definition upload_env_file ::
  "string option \<Rightarrow> state \<Rightarrow> json option option \<Rightarrow> pydict option \<Rightarrow> string option \<Rightarrow> string
    \<Rightarrow> state \<times> (error + string)"
where
  "upload_env_file ADMIN_API_TOKEN st env_file env_json x_admin_token hex =
     (case require_admin ADMIN_API_TOKEN x_admin_token of
        Inl e \<Rightarrow> (st, Inl e)
      | Inr u \<Rightarrow>
          (case (case env_file of
                   Some contents \<Rightarrow>
                     (case contents of
                        None \<Rightarrow> Inl (HTTPException 400 ''uploaded file not valid JSON'')
                      | Some v \<Rightarrow> Inr v)
                 | None \<Rightarrow>
                     (case env_json of
                        Some d \<Rightarrow> Inr (JObj d)
                      | None \<Rightarrow> Inl (HTTPException 400 ''no env provided''))) of
             Inl e \<Rightarrow> (st, Inl e)
           | Inr data \<Rightarrow>
               let env_token = ''env_'' @ hex
               in (st\<lparr>envs_dir := (envs_dir st)(env_token := Content data)\<rparr>, Inr env_token)))"

text \<open>The loop of \<open>download_env\<close> over \<open>jobs.values()\<close>.\<close>

fun references :: "document \<Rightarrow> string \<Rightarrow> string \<Rightarrow> bool" where
  "references [] agent_id env_token = False"
| "references ((jid, job) # rest) agent_id env_token =
     (if dict_get job ''agent_id'' = JStr agent_id \<and> dict_get job ''status'' = JStr ''pending''
         \<and> dict_get job ''env_token'' = JStr env_token
      then True
      else references rest agent_id env_token)"

text \<open>
  \<open>JSONResponse(content=data)\<close> renders at construction, with
  \<open>json.dumps(content, ensure_ascii=False, allow_nan=False, ...).encode("utf-8")\<close>:
  \<open>json.dumps\<close> raises \<open>ValueError\<close> at a non-finite float, and the encoding raises
  \<open>UnicodeEncodeError\<close> at a surrogate, in a string value or in a key.
\<close>

fun non_finite :: "json \<Rightarrow> bool" where
  "non_finite (JFloat f) = (case f of Finite m e \<Rightarrow> False | PosInfinity \<Rightarrow> True
                                     | NegInfinity \<Rightarrow> True | NaN \<Rightarrow> True)"
| "non_finite (JArr xs) = list_ex non_finite xs"
| "non_finite (JObj kvs) = list_ex (\<lambda>kv. non_finite (snd kv)) kvs"
| "non_finite v = False"

fun surrogate :: "string \<Rightarrow> bool" where
  "surrogate (a # b # cs) =
     ((a = CHR 0xED \<and> 0xA0 \<le> (of_char b :: nat) \<and> (of_char b :: nat) \<le> 0xBF) \<or> surrogate (b # cs))"
| "surrogate cs = False"

fun has_surrogate :: "json \<Rightarrow> bool" where
  "has_surrogate (JStr s) = surrogate s"
| "has_surrogate (JArr xs) = list_ex has_surrogate xs"
| "has_surrogate (JObj kvs) = list_ex (\<lambda>kv. surrogate (fst kv) \<or> has_surrogate (snd kv)) kvs"
| "has_surrogate v = False"

definition JSONResponse :: "json \<Rightarrow> error + json" where
  "JSONResponse content =
     (if non_finite content then Inl ValueError
      else if has_surrogate content then Inl UnicodeEncodeError
      else Inr content)"

text \<open>
  \<open>os.path.join(ORCH_B_STORAGE, "envs", f"{env_token}.json")\<close> with an unchecked token.
  A token that starts with \<open>/\<close> makes the path absolute. Otherwise the components of the
  token before its last \<open>/\<close> are directories walked from \<open>envs/\<close>: an empty component and
  \<open>.\<close> stay, \<open>..\<close> goes from \<open>envs/\<close> to the storage root, and \<open>envs\<close> goes back down; the
  last component plus \<open>.json\<close> is the file name. So \<open>../jobs\<close> names \<open>jobs.json\<close>. Every path
  that leaves these two directories is \<open>Elsewhere\<close>.
\<close>

fun split_path :: "string \<Rightarrow> string list" where
  "split_path [] = [[]]"
| "split_path (c # cs) =
     (if c = CHR ''/'' then [] # split_path cs
      else (case split_path cs of [] \<Rightarrow> [[c]] | x # xs \<Rightarrow> (c # x) # xs))"

datatype place = AtEnvs | AtRoot

datatype location = Bundle string | JobsFile | AgentsFile | Elsewhere

fun walk :: "place \<Rightarrow> string list \<Rightarrow> location" where
  "walk p [] = Elsewhere"
| "walk AtEnvs [base] = Bundle base"
| "walk AtRoot [base] =
     (if base = ''jobs'' then JobsFile else if base = ''agents'' then AgentsFile else Elsewhere)"
| "walk p (c # cs) =
     (if c = [] \<or> c = ''.'' then walk p cs
      else if c = ''..'' then (case p of AtEnvs \<Rightarrow> walk AtRoot cs | AtRoot \<Rightarrow> Elsewhere)
      else if p = AtRoot \<and> c = ''envs'' then walk AtEnvs cs
      else Elsewhere)"

definition locate :: "string \<Rightarrow> location" where
  "locate env_token =
     (if take 1 env_token = ''/'' then Elsewhere else walk AtEnvs (split_path env_token))"

text \<open>One of the two documents, read as the JSON value that \<open>json.load\<close> makes of it.\<close>

definition as_json :: "document on_disk \<Rightarrow> json on_disk" where
  "as_json f =
     (case f of
        Absent \<Rightarrow> Absent
      | Malformed \<Rightarrow> Malformed
      | Content d \<Rightarrow> Content (JObj (map (\<lambda>(k, r). (k, JObj r)) d)))"

text \<open>
  What \<open>os.path.exists(path)\<close> and \<open>open(path)\<close> find. \<open>os.path.exists\<close> is false for a path
  with a NUL byte. \<open>elsewhere\<close> is the rest of the file system, which the program never
  writes: what it holds at the path of a token that leaves the two directories.
\<close>

definition bundle_file :: "(string \<Rightarrow> json on_disk) \<Rightarrow> state \<Rightarrow> string \<Rightarrow> json on_disk" where
  "bundle_file elsewhere st env_token =
     (if CHR 0x00 \<in> set env_token then Absent
      else
        (case locate env_token of
           Bundle name \<Rightarrow> envs_dir st name
         | JobsFile \<Rightarrow> as_json (jobs_file st)
         | AgentsFile \<Rightarrow> as_json (agents_file st)
         | Elsewhere \<Rightarrow> elsewhere env_token))"

definition download_env ::
  "(string \<Rightarrow> json on_disk) \<Rightarrow> state \<Rightarrow> string \<Rightarrow> string option \<Rightarrow> state \<times> (error + json)"
where
  "download_env elsewhere st env_token x_agent_token =
     (case agent_auth st x_agent_token of
        Inl e \<Rightarrow> (st, Inl e)
      | Inr (agents, agent_id) \<Rightarrow>
     (case read_json (jobs_file st) of
        Inl e \<Rightarrow> (st, Inl e)
      | Inr jobs \<Rightarrow>
          if \<not> references jobs agent_id env_token
          then (st, Inl (HTTPException 403 ''no job for this agent references this env token''))
          else
            (case bundle_file elsewhere st env_token of
               Absent \<Rightarrow> (st, Inl (HTTPException 404 ''env token not found''))
             | Malformed \<Rightarrow> (st, Inl JSONDecodeError)
             | Content data \<Rightarrow> (st, JSONResponse data))))"

section \<open>The steps of \<open>report\<close> between lock acquisitions\<close>

text \<open>
  \<open>_fs_lock\<close> is taken inside \<open>read_json\<close> and inside \<open>write_json\<close> and released when
  each returns; \<open>report\<close> holds nothing in between. One step of a running \<open>report\<close> call
  is therefore one locked section together with the thread-local code that follows it:
  the read of the agents document, the read of the jobs document (with the checks and
  the assignments to the local copy), the write of the local copy. \<open>report_pc\<close> is what
  the thread holds between steps.
\<close>

datatype report_pc =
    Start
  | HaveAgents string
  | HaveJobs document
  | Done "error + unit"

definition report_step ::
  "report_req \<Rightarrow> string option \<Rightarrow> int \<Rightarrow> state \<Rightarrow> report_pc \<Rightarrow> state \<times> report_pc"
where
  "report_step req x_agent_token now st pc =
     (case pc of
        Start \<Rightarrow>
          (case agent_auth st x_agent_token of
             Inl e \<Rightarrow> (st, Done (Inl e))
           | Inr (agents, agent_id) \<Rightarrow> (st, HaveAgents agent_id))
      | HaveAgents agent_id \<Rightarrow>
          (case read_json (jobs_file st) of
             Inl e \<Rightarrow> (st, Done (Inl e))
           | Inr jobs \<Rightarrow>
               (case map_of jobs (job_id req) of
                  None \<Rightarrow> (st, Done (Inl (HTTPException 404 ''job not found'')))
                | Some job \<Rightarrow>
                    if dict_get job ''agent_id'' \<noteq> JStr agent_id
                    then (st, Done (Inl (HTTPException 403 ''job does not belong to this agent'')))
                    else (st, HaveJobs (AList.update (job_id req) (reported job req now) jobs))))
      | HaveJobs jobs \<Rightarrow> (st\<lparr>jobs_file := write_json jobs\<rparr>, Done (Inr ()))
      | Done r \<Rightarrow> (st, Done r))"

text \<open>
  Several \<open>report\<close> calls in flight: the schedule names the call that takes the next step.
\<close>

type_synonym report_call = "report_req \<times> string option \<times> int"

fun run :: "report_call list \<Rightarrow> nat list \<Rightarrow> state \<times> report_pc list \<Rightarrow> state \<times> report_pc list" where
  "run calls [] c = c"
| "run calls (i # schedule) (st, pcs) =
     (if i < length calls \<and> i < length pcs then
        (case calls ! i of (req, x_agent_token, now) \<Rightarrow>
           (case report_step req x_agent_token now st (pcs ! i) of
              (st', pc') \<Rightarrow> run calls schedule (st', pcs[i := pc'])))
      else run calls schedule (st, pcs))"

text \<open>Calls that run one after the other, each from its start to its return.\<close>

fun report_all :: "state \<Rightarrow> report_call list \<Rightarrow> state \<times> (error + unit) list" where
  "report_all st [] = (st, [])"
| "report_all st ((req, x_agent_token, now) # calls) =
     (case report st req x_agent_token now of
        (st1, r) \<Rightarrow> (case report_all st1 calls of (st2, rs) \<Rightarrow> (st2, r # rs)))"

text \<open>The schedule in which call \<open>i\<close> takes its three steps before call \<open>i + 1\<close> starts.\<close>

definition one_after_another :: "nat \<Rightarrow> nat list" where
  "one_after_another n = concat (map (\<lambda>i. [i, i, i]) [0..<n])"

section \<open>Reachable states\<close>

text \<open>
  At start-up the module creates both documents as \<open>{}\<close>. Identifiers and clock readings
  are arbitrary: no freshness is assumed.
\<close>

definition init_state :: state where
  "init_state = \<lparr>agents_file = Content [], jobs_file = Content [], envs_dir = (\<lambda>t. Absent)\<rparr>"

inductive reachable :: "string option \<Rightarrow> state \<Rightarrow> bool" for ADMIN_API_TOKEN :: "string option" where
  r_init: "reachable ADMIN_API_TOKEN init_state"
| r_register: "reachable ADMIN_API_TOKEN st \<Longrightarrow>
     reachable ADMIN_API_TOKEN (fst (register st req agent_id agent_token t1 t2))"
| r_create_job: "reachable ADMIN_API_TOKEN st \<Longrightarrow>
     reachable ADMIN_API_TOKEN (fst (create_job ADMIN_API_TOKEN st payload x_admin_token jid t1 t2))"
| r_poll_jobs: "reachable ADMIN_API_TOKEN st \<Longrightarrow>
     reachable ADMIN_API_TOKEN (fst (poll_jobs st x_agent_token now))"
| r_report: "reachable ADMIN_API_TOKEN st \<Longrightarrow>
     reachable ADMIN_API_TOKEN (fst (report st rreq x_agent_token now))"
| r_upload_env: "reachable ADMIN_API_TOKEN st \<Longrightarrow>
     reachable ADMIN_API_TOKEN (fst (upload_env_file ADMIN_API_TOKEN st env_file env_json x_admin_token hex))"

text \<open>
  The shape of the jobs document that every endpoint maintains: keys are not repeated
  (it is a \<open>dict\<close>) and each record carries its own key as \<open>job_id\<close>.
\<close>

definition jobs_ok :: "document \<Rightarrow> bool" where
  "jobs_ok jobs = (distinct (map fst jobs) \<and> (\<forall>(jid, job) \<in> set jobs. dict_get job ''job_id'' = JStr jid))"

text \<open>
  Calls on pairwise distinct jobs, all owned by agent \<open>A\<close>, each with a token of \<open>A\<close>.
\<close>

definition owned_calls :: "state \<Rightarrow> document \<Rightarrow> string \<Rightarrow> report_call list \<Rightarrow> bool" where
  "owned_calls st jobs A calls =
     (distinct (map (\<lambda>(req, tok, now). job_id req) calls) \<and>
      (\<forall>(req, tok, now) \<in> set calls.
          (\<exists>agents. agent_auth st tok = Inr (agents, A)) \<and>
          (\<exists>job. map_of jobs (job_id req) = Some job \<and> dict_get job ''agent_id'' = JStr A)))"

section \<open>Schedules and invariants of concurrent reports\<close>

text \<open>
  A call that holds \<open>HaveAgents\<close> is about to read the jobs document; a call that holds
  \<open>HaveJobs\<close> is between that read and its write-back. In a schedule with disjoint windows
  no call reads the jobs document while another call is between its read and its
  write-back; reads of the agents document may fall anywhere.
\<close>

fun at_read :: "report_pc \<Rightarrow> bool" where
  "at_read (HaveAgents a) = True"
| "at_read pc = False"

fun in_window :: "report_pc \<Rightarrow> bool" where
  "in_window (HaveJobs d) = True"
| "in_window pc = False"

fun windows_disjoint :: "report_call list \<Rightarrow> nat list \<Rightarrow> state \<times> report_pc list \<Rightarrow> bool" where
  "windows_disjoint calls [] c = True"
| "windows_disjoint calls (i # schedule) (st, pcs) =
     ((i < length calls \<and> i < length pcs \<and> at_read (pcs ! i) \<longrightarrow> \<not> list_ex in_window pcs)
      \<and> windows_disjoint calls schedule (run calls [i] (st, pcs)))"

text \<open>How many of its three steps a call has taken.\<close>

fun steps_taken :: "report_pc \<Rightarrow> nat" where
  "steps_taken Start = 0"
| "steps_taken (HaveAgents a) = 1"
| "steps_taken (HaveJobs d) = 2"
| "steps_taken (Done r) = 3"

text \<open>
  What holds of every call on an owned job under every schedule: the agent it found is
  the owner, its local copy of the jobs document still has every job of the calls with
  its owner, and what it returned is \<open>ok\<close>.
\<close>

definition pc_ok :: "state \<Rightarrow> string \<Rightarrow> report_call list \<Rightarrow> report_pc \<Rightarrow> bool" where
  "pc_ok st A calls pc =
     (case pc of
        Start \<Rightarrow> True
      | HaveAgents a \<Rightarrow> a = A
      | HaveJobs d \<Rightarrow> owned_calls st d A calls
      | Done r \<Rightarrow> r = Inr ())"

definition all_ok :: "state \<Rightarrow> string \<Rightarrow> report_call list \<Rightarrow> state \<times> report_pc list \<Rightarrow> bool" where
  "all_ok st A calls c =
     (case c of (s, ps) \<Rightarrow>
        length ps = length calls \<and> agents_file s = agents_file st \<and>
        (\<exists>d. read_json (jobs_file s) = Inr d \<and> owned_calls st d A calls) \<and>
        (\<forall>i < length calls. pc_ok st A calls (ps ! i)))"

definition call_job_id :: "report_call \<Rightarrow> string" where
  "call_job_id c = (case c of (req, tok, now) \<Rightarrow> job_id req)"

definition written :: "pydict \<Rightarrow> report_call \<Rightarrow> pydict" where
  "written job c = (case c of (req, tok, now) \<Rightarrow> reported job req now)"

text \<open>
  What holds in addition under a schedule with disjoint windows: the jobs document has
  the written record for every call that has returned and the original record for every
  other call, a local copy differs from the document by the call's own record only, and
  at most one call is between its read and its write-back.
\<close>

definition undisturbed :: "document \<Rightarrow> report_call list \<Rightarrow> state \<times> report_pc list \<Rightarrow> bool" where
  "undisturbed jobs calls c =
     (case c of (s, ps) \<Rightarrow>
        (\<exists>dc. read_json (jobs_file s) = Inr dc \<and>
           (\<forall>i < length calls. \<exists>job. map_of jobs (call_job_id (calls ! i)) = Some job \<and>
               map_of dc (call_job_id (calls ! i)) =
                 Some (if steps_taken (ps ! i) = 3 then written job (calls ! i) else job) \<and>
               (\<forall>dl. ps ! i = HaveJobs dl \<longrightarrow>
                  dl = AList.update (call_job_id (calls ! i)) (written job (calls ! i)) dc)) \<and>
           (\<forall>jid. jid \<notin> call_job_id ` set calls \<longrightarrow> map_of dc jid = map_of jobs jid)) \<and>
        (\<forall>i < length calls. \<forall>j < length calls. in_window (ps ! i) \<and> in_window (ps ! j) \<longrightarrow> i = j))"

section \<open>A concrete scenario\<close>

text \<open>
  Two agents; two pending jobs of the first, one referring to the bundle \<open>env_x\<close>, and
  one pending job of the second; no bundle uploaded.
\<close>

definition ex_agent1 :: pydict where
  "ex_agent1 = [(''agent_id'', JStr ''a1''), (''token'', JStr ''t1''), (''hostname'', JStr ''h1''),
     (''ip'', JStr ''''), (''ssh_pubkey'', JStr ''''), (''meta'', JObj []),
     (''created'', JInt 1), (''last_seen'', JInt 1)]"

definition ex_agent2 :: pydict where
  "ex_agent2 = [(''agent_id'', JStr ''a2''), (''token'', JStr ''t2''), (''hostname'', JStr ''h2''),
     (''ip'', JStr ''''), (''ssh_pubkey'', JStr ''''), (''meta'', JObj []),
     (''created'', JInt 2), (''last_seen'', JInt 2)]"

definition ex_job1 :: pydict where
  "ex_job1 = [(''job_id'', JStr ''j1''), (''agent_id'', JStr ''a1''),
     (''args'', JArr [JStr ''https://x.git'', JStr ''d.com'']), (''is_spa'', JBool False),
     (''env_token'', JStr ''env_x''), (''status'', JStr ''pending''),
     (''created'', JInt 3), (''updated'', JInt 3)]"

definition ex_job2 :: pydict where
  "ex_job2 = [(''job_id'', JStr ''j2''), (''agent_id'', JStr ''a1''),
     (''args'', JArr []), (''is_spa'', JBool False),
     (''env_token'', JNull), (''status'', JStr ''pending''),
     (''created'', JInt 4), (''updated'', JInt 4)]"

definition ex_job3 :: pydict where
  "ex_job3 = [(''job_id'', JStr ''j3''), (''agent_id'', JStr ''a2''),
     (''args'', JArr []), (''is_spa'', JBool True),
     (''env_token'', JNull), (''status'', JStr ''pending''),
     (''created'', JInt 5), (''updated'', JInt 5)]"

definition ex_state :: state where
  "ex_state = \<lparr>agents_file = Content [(''a1'', ex_agent1), (''a2'', ex_agent2)],
               jobs_file = Content [(''j1'', ex_job1), (''j2'', ex_job2), (''j3'', ex_job3)],
               envs_dir = (\<lambda>t. Absent)\<rparr>"

definition ex_calls :: "report_call list" where
  "ex_calls = [(\<lparr>job_id = ''j1'', status = ''done'', output_text = Some ''one''\<rparr>, Some ''t1'', 6),
               (\<lparr>job_id = ''j2'', status = ''failed'', output_text = Some ''two''\<rparr>, Some ''t1'', 7)]"

section \<open>Facts about the helpers\<close>

lemma references_iff:
  "references jobs A T \<longleftrightarrow>
     (\<exists>job \<in> snd ` set jobs. dict_get job ''agent_id'' = JStr A \<and> dict_get job ''status'' = JStr ''pending''
        \<and> dict_get job ''env_token'' = JStr T)"
  by (induction jobs A T rule: references.induct) auto

lemma set_pending:
  "set (pending jobs A) =
     {job \<in> snd ` set jobs. dict_get job ''agent_id'' = JStr A \<and> dict_get job ''status'' = JStr ''pending''}"
  by (induction jobs A rule: pending.induct) auto

lemma dict_get_update:
  "dict_get (AList.update k v d) k' = (if k' = k then v else dict_get d k')"
  by (simp add: dict_get_def update_conv')

lemma dict_get_Cons:
  "dict_get ((k, v) # d) k' = (if k' = k then v else dict_get d k')"
  by (simp add: dict_get_def)

lemma set_update_distinct:
  "distinct (map fst al) \<Longrightarrow> set (AList.update k v al) = insert (k, v) {p \<in> set al. fst p \<noteq> k}"
  by (induction al) (auto simp: rev_image_eqI)

lemma update_keys_present:
  "k \<in> fst ` set al \<Longrightarrow> map fst (AList.update k v al) = map fst al"
  by (induction al) auto

lemma find_agent_key: "find_agent agents tok = Some aid \<Longrightarrow> aid \<in> fst ` set agents"
  by (induction agents tok rule: find_agent.induct) (auto split: if_splits)

lemma agent_auth_key:
  "agent_auth st tok = Inr (agents, A) \<Longrightarrow> agents_file st = Content agents \<and> A \<in> fst ` set agents \<and> A \<noteq> []"
  by (auto simp: agent_auth_def read_json_def split: option.splits if_splits sum.splits on_disk.splits dest: find_agent_key)

lemma agent_auth_cong:
  "agents_file st1 = agents_file st \<Longrightarrow> agent_auth st1 tok = agent_auth st tok"
  by (auto simp: agent_auth_def split: option.splits)

lemma dict_get_reported:
  "dict_get (reported job req now) k =
     (if k = ''updated'' then JInt now
      else if k = ''output'' then (case output_text req of None \<Rightarrow> JNull | Some s \<Rightarrow> JStr s)
      else if k = ''status'' then JStr (status req)
      else dict_get job k)"
  by (simp add: reported_def dict_get_update)

lemma map_of_touch:
  "map_of agents A = Some a \<Longrightarrow>
   map_of (touch agents A now) = (map_of agents)(A \<mapsto> AList.update ''last_seen'' (JInt now) a)"
  by (simp add: touch_def update_conv')

lemma report_success:
  assumes "agent_auth st tok = Inr (agents, A)"
    and "read_json (jobs_file st) = Inr jobs"
    and "map_of jobs (job_id req) = Some job"
    and "dict_get job ''agent_id'' = JStr A"
  shows "report st req tok now =
           (st\<lparr>jobs_file := Content (AList.update (job_id req) (reported job req now) jobs)\<rparr>, Inr ())"
  using assms by (simp add: report_def write_json_def)

text \<open>
  A call whose three steps are not interleaved with any other is the function \<open>report\<close>,
  and the schedule \<open>one_after_another\<close> is \<open>report_all\<close>.
\<close>

lemma report_three_steps:
  "(case report_step req tok now st Start of (s1, p1) \<Rightarrow>
      (case report_step req tok now s1 p1 of (s2, p2) \<Rightarrow>
         report_step req tok now s2 p2)) =
   (case report st req tok now of (st', r) \<Rightarrow> (st', Done r))"
  by (simp add: report_step_def report_def write_json_def
        split: sum.splits option.splits prod.splits)

lemma run_three:
  assumes "k < length calls" "k < length pcs" "calls ! k = (req, tok, now)" "pcs ! k = Start"
    and "report st req tok now = (st', r)"
  shows "run calls (k # k # k # schedule) (st, pcs) = run calls schedule (st', pcs[k := Done r])"
proof -
  obtain s1 p1 where 1: "report_step req tok now st Start = (s1, p1)" by (cases "report_step req tok now st Start") auto
  obtain s2 p2 where 2: "report_step req tok now s1 p1 = (s2, p2)" by (cases "report_step req tok now s1 p1") auto
  obtain s3 p3 where 3: "report_step req tok now s2 p2 = (s3, p3)" by (cases "report_step req tok now s2 p2") auto
  from report_three_steps[of req tok now st] 1 2 3 assms(5) have e: "s3 = st'" "p3 = Done r" by simp_all
  show ?thesis using assms(1-4) 1 2 3 e by simp
qed

lemma run_sequential_aux:
  "length rs0 = length done_calls \<Longrightarrow>
   run (done_calls @ calls) (concat (map (\<lambda>i. [i, i, i]) [length done_calls..<length done_calls + length calls]))
       (st, map Done rs0 @ replicate (length calls) Start) =
   (case report_all st calls of (st', rs) \<Rightarrow> (st', map Done (rs0 @ rs)))"
proof (induction calls arbitrary: done_calls rs0 st)
  case Nil
  then show ?case by simp
next
  case (Cons c calls)
  obtain req tok now where c: "c = (req, tok, now)" by (cases c) auto
  obtain st1 r where rep: "report st req tok now = (st1, r)" by (cases "report st req tok now") auto
  let ?k = "length done_calls"
  let ?pcs = "map Done rs0 @ replicate (length (c # calls)) Start"
  have up: "[?k..<?k + length (c # calls)] = ?k # [Suc ?k..<Suc ?k + length calls]"
    by (simp add: upt_rec)
  have k1: "?k < length (done_calls @ c # calls)" by simp
  have k2: "?k < length ?pcs" using Cons.prems by simp
  have k3: "(done_calls @ c # calls) ! ?k = (req, tok, now)" by (simp add: c)
  have k4: "?pcs ! ?k = Start" using Cons.prems by (simp add: nth_append)
  have upd: "?pcs[?k := Done r] = map Done (rs0 @ [r]) @ replicate (length calls) Start"
    using Cons.prems by (simp add: list_update_append)
  have len: "length (rs0 @ [r]) = length (done_calls @ [c])" using Cons.prems by simp
  have ca: "(done_calls @ [c]) @ calls = done_calls @ c # calls" by simp
  have cb: "length (done_calls @ [c]) = Suc ?k" by simp
  have "run (done_calls @ c # calls) (concat (map (\<lambda>i. [i, i, i]) [?k..<?k + length (c # calls)])) (st, ?pcs)
      = run (done_calls @ c # calls) (concat (map (\<lambda>i. [i, i, i]) [Suc ?k..<Suc ?k + length calls]))
          (st1, ?pcs[?k := Done r])"
    unfolding up using run_three[OF k1 k2 k3 k4 rep] by simp
  also have "\<dots> = run ((done_calls @ [c]) @ calls)
        (concat (map (\<lambda>i. [i, i, i]) [length (done_calls @ [c])..<length (done_calls @ [c]) + length calls]))
          (st1, map Done (rs0 @ [r]) @ replicate (length calls) Start)"
    unfolding upd ca cb by (rule refl)
  also have "\<dots> = (case report_all st1 calls of (st', rs) \<Rightarrow> (st', map Done ((rs0 @ [r]) @ rs)))"
    by (rule Cons.IH[OF len])
  also have "\<dots> = (case report_all st (c # calls) of (st', rs) \<Rightarrow> (st', map Done (rs0 @ rs)))"
    by (simp add: c rep split: prod.splits)
  finally show ?case .
qed

lemma run_one_after_another:
  "run calls (one_after_another (length calls)) (st, replicate (length calls) Start) =
     (case report_all st calls of (st', rs) \<Rightarrow> (st', map Done rs))"
  using run_sequential_aux[of "[]" "[]" calls st]
  by (simp add: one_after_another_def)

lemma owned_calls_Cons:
  "owned_calls st jobs A ((req, tok, now) # calls) \<longleftrightarrow>
     job_id req \<notin> (\<lambda>(req, tok, now). job_id req) ` set calls \<and>
     (\<exists>agents. agent_auth st tok = Inr (agents, A)) \<and>
     (\<exists>job. map_of jobs (job_id req) = Some job \<and> dict_get job ''agent_id'' = JStr A) \<and>
     owned_calls st jobs A calls"
  unfolding owned_calls_def by (simp add: image_image case_prod_unfold, blast)

lemma owned_calls_step:
  assumes "owned_calls st jobs A calls"
    and "jid \<notin> (\<lambda>(req, tok, now). job_id req) ` set calls"
    and "agents_file st1 = agents_file st"
  shows "owned_calls st1 (AList.update jid v jobs) A calls"
  using assms
proof (induction calls)
  case Nil
  then show ?case by (simp add: owned_calls_def)
next
  case (Cons c calls)
  obtain req tok now where c: "c = (req, tok, now)" by (cases c) auto
  from Cons.prems(2) c have ne: "job_id req \<noteq> jid"
    and rest: "jid \<notin> (\<lambda>(req, tok, now). job_id req) ` set calls"
    by auto
  from Cons.prems(1) c have o: "owned_calls st jobs A calls"
    by (simp add: owned_calls_Cons)
  have IH: "owned_calls st1 (AList.update jid v jobs) A calls"
    by (rule Cons.IH[OF o rest Cons.prems(3)])
  have m: "map_of (AList.update jid v jobs) (job_id req) = map_of jobs (job_id req)"
    using ne by (simp add: update_conv')
  have a: "agent_auth st1 tok = agent_auth st tok"
    by (rule agent_auth_cong[OF Cons.prems(3)])
  from Cons.prems(1) IH show ?case
    unfolding c owned_calls_Cons m a by blast
qed

section \<open>Invariants of concurrent reports\<close>

lemma owned_calls_reported:
  assumes "owned_calls st d A calls" "map_of d jid = Some job" "dict_get job ''agent_id'' = JStr A"
  shows "owned_calls st (AList.update jid (reported job req now) d) A calls"
  unfolding owned_calls_def
proof (intro conjI ballI)
  show "distinct (map (\<lambda>(req, tok, now). job_id req) calls)"
    using assms(1) by (simp add: owned_calls_def)
next
  fix x assume x: "x \<in> set calls"
  obtain req' tok' now' where x': "x = (req', tok', now')" by (cases x) auto
  from assms(1) x x' obtain agents job' where
      a: "agent_auth st tok' = Inr (agents, A)"
    and j: "map_of d (job_id req') = Some job'" "dict_get job' ''agent_id'' = JStr A"
    unfolding owned_calls_def by fastforce
  have "\<exists>job2. map_of (AList.update jid (reported job req now) d) (job_id req') = Some job2 \<and>
          dict_get job2 ''agent_id'' = JStr A"
  proof (cases "job_id req' = jid")
    case True
    then show ?thesis using assms(3) by (simp add: update_conv' dict_get_reported)
  next
    case False
    then show ?thesis using j by (simp add: update_conv')
  qed
  with a show "case x of (r, t, n) \<Rightarrow>
          (\<exists>agents. agent_auth st t = Inr (agents, A)) \<and>
          (\<exists>job2. map_of (AList.update jid (reported job req now) d) (job_id r) = Some job2 \<and>
             dict_get job2 ''agent_id'' = JStr A)"
    by (auto simp: x')
qed

lemma owned_calls_member:
  assumes "owned_calls st d A calls" "(req, tok, now) \<in> set calls"
  shows "\<exists>agents job. agent_auth st tok = Inr (agents, A) \<and> map_of d (job_id req) = Some job \<and>
           dict_get job ''agent_id'' = JStr A"
  using assms unfolding owned_calls_def by fastforce

lemma report_step_ok:
  assumes own: "owned_calls st d A calls"
    and rd: "read_json (jobs_file s) = Inr d"
    and ag: "agents_file s = agents_file st"
    and mem: "(req, tok, now) \<in> set calls"
    and ok: "pc_ok st A calls pc"
    and step: "report_step req tok now s pc = (s', pc')"
  shows "agents_file s' = agents_file st \<and>
         (\<exists>d'. read_json (jobs_file s') = Inr d' \<and> owned_calls st d' A calls) \<and>
         pc_ok st A calls pc' \<and> steps_taken pc' = min 3 (Suc (steps_taken pc))"
proof (cases pc)
  case Start
  from owned_calls_member[OF own mem] obtain agents where "agent_auth st tok = Inr (agents, A)" by blast
  then have "agent_auth s tok = Inr (agents, A)" using agent_auth_cong[OF ag] by simp
  with step Start have "s' = s" "pc' = HaveAgents A" by (simp_all add: report_step_def)
  with own rd ag Start show ?thesis by (auto simp: pc_ok_def)
next
  case (HaveAgents a)
  with ok have a: "a = A" by (simp add: pc_ok_def)
  from owned_calls_member[OF own mem] obtain job where
    j: "map_of d (job_id req) = Some job" "dict_get job ''agent_id'' = JStr A" by blast
  with step HaveAgents a rd have "s' = s" "pc' = HaveJobs (AList.update (job_id req) (reported job req now) d)"
    by (simp_all add: report_step_def)
  moreover have "owned_calls st (AList.update (job_id req) (reported job req now) d) A calls"
    using own j by (rule owned_calls_reported)
  ultimately show ?thesis using own rd ag HaveAgents by (auto simp: pc_ok_def)
next
  case (HaveJobs d2)
  with ok have o2: "owned_calls st d2 A calls" by (simp add: pc_ok_def)
  from step HaveJobs have "s' = s\<lparr>jobs_file := Content d2\<rparr>" "pc' = Done (Inr ())"
    by (simp_all add: report_step_def write_json_def)
  with o2 ag HaveJobs show ?thesis by (auto simp: pc_ok_def read_json_def)
next
  case (Done r)
  with step have "s' = s" "pc' = Done r" by (simp_all add: report_step_def)
  with own rd ag ok Done show ?thesis by auto
qed

lemma run_Cons: "run calls (i # schedule) c = run calls schedule (run calls [i] c)"
  by (cases c) (simp split: prod.splits)

lemma run_single:
  assumes "i < length calls" "i < length ps" "calls ! i = (req, tok, now)"
    and "report_step req tok now s (ps ! i) = (s', pc')"
  shows "run calls [i] (s, ps) = (s', ps[i := pc'])"
  using assms by simp

lemma all_ok_step:
  assumes ok: "all_ok st A calls (s, ps)" and run1: "run calls [i] (s, ps) = (s', ps')"
  shows "all_ok st A calls (s', ps') \<and>
         (\<forall>j < length calls. steps_taken (ps' ! j) =
              (if j = i then min 3 (Suc (steps_taken (ps ! j))) else steps_taken (ps ! j)))"
proof (cases "i < length calls")
  case False
  with run1 have "s' = s" "ps' = ps" by auto
  with ok False show ?thesis by auto
next
  case True
  from ok have len: "length ps = length calls" and ag: "agents_file s = agents_file st"
    and oks: "\<forall>j < length calls. pc_ok st A calls (ps ! j)"
    by (simp_all add: all_ok_def)
  from ok obtain d where rd: "read_json (jobs_file s) = Inr d" and own: "owned_calls st d A calls"
    by (auto simp: all_ok_def)
  obtain req tok now where c: "calls ! i = (req, tok, now)" by (cases "calls ! i") auto
  with True have mem: "(req, tok, now) \<in> set calls" by (metis nth_mem)
  obtain s1 pc1 where st1: "report_step req tok now s (ps ! i) = (s1, pc1)"
    by (cases "report_step req tok now s (ps ! i)") auto
  from True len have ilen: "i < length ps" by simp
  from run_single[OF True ilen c st1] run1 have e: "s' = s1" "ps' = ps[i := pc1]" by simp_all
  from oks True have oki: "pc_ok st A calls (ps ! i)" by blast
  from report_step_ok[OF own rd ag mem oki st1] have
      1: "agents_file s1 = agents_file st"
    and 2: "\<exists>d'. read_json (jobs_file s1) = Inr d' \<and> owned_calls st d' A calls"
    and 3: "pc_ok st A calls pc1"
    and 4: "steps_taken pc1 = min 3 (Suc (steps_taken (ps ! i)))"
    by blast+
  have 5: "\<forall>j < length calls. pc_ok st A calls (ps[i := pc1] ! j)"
    using oks 3 ilen by (auto simp: nth_list_update)
  have 6: "\<forall>j < length calls. steps_taken (ps[i := pc1] ! j) =
              (if j = i then min 3 (Suc (steps_taken (ps ! j))) else steps_taken (ps ! j))"
    using 4 ilen by (auto simp: nth_list_update)
  from 1 2 5 6 len show ?thesis unfolding e all_ok_def by simp
qed

lemma steps_taken_le: "steps_taken pc \<le> 3"
  by (cases pc) auto

lemma all_ok_run:
  "all_ok st A calls (s, ps) \<Longrightarrow> run calls schedule (s, ps) = (s', ps') \<Longrightarrow>
   all_ok st A calls (s', ps') \<and>
   (\<forall>j < length calls. steps_taken (ps' ! j) = min 3 (steps_taken (ps ! j) + count_list schedule j))"
proof (induction schedule arbitrary: s ps)
  case Nil
  then show ?case by (auto simp: min_absorb2 steps_taken_le)
next
  case (Cons i schedule)
  obtain s1 ps1 where r1: "run calls [i] (s, ps) = (s1, ps1)" by (cases "run calls [i] (s, ps)") auto
  from all_ok_step[OF Cons.prems(1) r1] have ok1: "all_ok st A calls (s1, ps1)"
    and st1: "\<forall>j < length calls. steps_taken (ps1 ! j) =
              (if j = i then min 3 (Suc (steps_taken (ps ! j))) else steps_taken (ps ! j))"
    by blast+
  from Cons.prems(2) have r2: "run calls schedule (s1, ps1) = (s', ps')"
    by (simp only: run_Cons[of calls i schedule] r1)
  from Cons.IH[OF ok1 r2] have ok': "all_ok st A calls (s', ps')"
    and st': "\<forall>j < length calls. steps_taken (ps' ! j) = min 3 (steps_taken (ps1 ! j) + count_list schedule j)"
    by blast+
  have "steps_taken (ps' ! j) = min 3 (steps_taken (ps ! j) + count_list (i # schedule) j)"
    if "j < length calls" for j
    using st' st1 that by (cases "j = i") auto
  with ok' show ?case by blast
qed

lemma steps_taken_3: "steps_taken pc = 3 \<longleftrightarrow> (\<exists>r. pc = Done r)"
  by (cases pc) auto

lemma call_job_id_distinct:
  assumes "owned_calls st jobs A calls" "i < length calls" "k < length calls" "i \<noteq> k"
  shows "call_job_id (calls ! i) \<noteq> call_job_id (calls ! k)"
proof -
  have e: "(\<lambda>(req, tok, now). job_id req) = call_job_id"
    by (auto simp: call_job_id_def fun_eq_iff)
  from assms(1) have "distinct (map call_job_id calls)"
    by (simp add: owned_calls_def e)
  with assms(2-4) show ?thesis
    by (metis (no_types, lifting) length_map nth_eq_iff_index_eq nth_map)
qed

lemma report_step_owned:
  assumes own: "owned_calls st d A calls"
    and rd: "read_json (jobs_file s) = Inr d"
    and ag: "agents_file s = agents_file st"
    and mem: "(req, tok, now) \<in> set calls"
    and ok: "pc_ok st A calls pc"
  shows "report_step req tok now s pc =
     (case pc of
        Start \<Rightarrow> (s, HaveAgents A)
      | HaveAgents a \<Rightarrow>
          (s, HaveJobs (AList.update (job_id req) (reported (the (map_of d (job_id req))) req now) d))
      | HaveJobs d2 \<Rightarrow> (s\<lparr>jobs_file := Content d2\<rparr>, Done (Inr ()))
      | Done r \<Rightarrow> (s, Done r))"
proof (cases pc)
  case Start
  from owned_calls_member[OF own mem] obtain agents where "agent_auth st tok = Inr (agents, A)" by blast
  then have "agent_auth s tok = Inr (agents, A)" using agent_auth_cong[OF ag] by simp
  with Start show ?thesis by (simp add: report_step_def)
next
  case (HaveAgents a)
  with ok have a: "a = A" by (simp add: pc_ok_def)
  from owned_calls_member[OF own mem] obtain job where
    j: "map_of d (job_id req) = Some job" "dict_get job ''agent_id'' = JStr A" by blast
  with HaveAgents a rd show ?thesis by (simp add: report_step_def)
next
  case (HaveJobs d2)
  then show ?thesis by (simp add: report_step_def write_json_def)
next
  case (Done r)
  then show ?thesis by (simp add: report_step_def)
qed

lemma undisturbed_step:
  assumes ok: "all_ok st A calls (s, ps)"
    and own0: "owned_calls st jobs A calls"
    and und: "undisturbed jobs calls (s, ps)"
    and cond: "i < length calls \<and> i < length ps \<and> at_read (ps ! i) \<longrightarrow> \<not> list_ex in_window ps"
    and run1: "run calls [i] (s, ps) = (s', ps')"
  shows "undisturbed jobs calls (s', ps')"
proof (cases "i < length calls")
  case False
  with run1 have "s' = s" "ps' = ps" by auto
  with und show ?thesis by simp
next
  case True
  let ?n = "length calls"
  from ok have len: "length ps = ?n" and ag: "agents_file s = agents_file st"
    and oks: "\<forall>j < ?n. pc_ok st A calls (ps ! j)"
    by (simp_all add: all_ok_def)
  from ok obtain d where rd: "read_json (jobs_file s) = Inr d" and own: "owned_calls st d A calls"
    by (auto simp: all_ok_def)
  from und rd have
      each: "\<forall>k < ?n. \<exists>job. map_of jobs (call_job_id (calls ! k)) = Some job \<and>
               map_of d (call_job_id (calls ! k)) =
                 Some (if steps_taken (ps ! k) = 3 then written job (calls ! k) else job) \<and>
               (\<forall>dl. ps ! k = HaveJobs dl \<longrightarrow>
                  dl = AList.update (call_job_id (calls ! k)) (written job (calls ! k)) d)"
    and frame: "\<forall>jid. jid \<notin> call_job_id ` set calls \<longrightarrow> map_of d jid = map_of jobs jid"
    and uniq: "\<forall>k < ?n. \<forall>j < ?n. in_window (ps ! k) \<and> in_window (ps ! j) \<longrightarrow> k = j"
    by (auto simp: undisturbed_def)
  obtain req tok now where c: "calls ! i = (req, tok, now)" by (cases "calls ! i") auto
  with True have mem: "(req, tok, now) \<in> set calls" by (metis nth_mem)
  from True len have ilen: "i < length ps" by simp
  from oks True have oki: "pc_ok st A calls (ps ! i)" by blast
  have cj: "call_job_id (calls ! i) = job_id req" by (simp add: c call_job_id_def)
  from each True obtain jobi where
      ji: "map_of jobs (job_id req) = Some jobi"
    and di: "map_of d (job_id req) = Some (if steps_taken (ps ! i) = 3 then written jobi (calls ! i) else jobi)"
    and wi: "\<forall>dl. ps ! i = HaveJobs dl \<longrightarrow> dl = AList.update (job_id req) (written jobi (calls ! i)) d"
    unfolding cj[symmetric] by blast
  have wr: "written jobi (calls ! i) = reported jobi req now" by (simp add: c written_def)
  note stp = report_step_owned[OF own rd ag mem oki]
  show ?thesis
  proof (cases "ps ! i")
    case Start
    with stp have "report_step req tok now s (ps ! i) = (s, HaveAgents A)" by simp
    from run_single[OF True ilen c this] run1 have e: "s' = s" "ps' = ps[i := HaveAgents A]" by simp_all
    have st: "steps_taken (ps' ! k) = 3 \<longleftrightarrow> steps_taken (ps ! k) = 3" if "k < ?n" for k
      using that ilen Start by (cases "k = i") (simp_all add: e)
    have hj: "ps' ! k = HaveJobs dl \<longleftrightarrow> ps ! k = HaveJobs dl" if "k < ?n" for k dl
      using that ilen Start by (cases "k = i") (simp_all add: e)
    have iw: "in_window (ps' ! k) \<longleftrightarrow> in_window (ps ! k)" if "k < ?n" for k
      using that ilen Start by (cases "k = i") (simp_all add: e)
    show ?thesis
      unfolding undisturbed_def using rd each frame uniq
      by (simp add: e(1) st hj iw)
  next
    case (HaveAgents a)
    from cond True ilen HaveAgents have now: "\<forall>pc \<in> set ps. \<not> in_window pc"
      by (simp add: list_ex_iff)
    from di HaveAgents have di': "map_of d (job_id req) = Some jobi" by simp
    let ?dl = "AList.update (job_id req) (reported jobi req now) d"
    from stp HaveAgents di' have "report_step req tok now s (ps ! i) = (s, HaveJobs ?dl)" by simp
    from run_single[OF True ilen c this] run1 have e: "s' = s" "ps' = ps[i := HaveJobs ?dl]" by simp_all
    have st: "steps_taken (ps' ! k) = 3 \<longleftrightarrow> steps_taken (ps ! k) = 3" if "k < ?n" for k
      using that ilen HaveAgents by (cases "k = i") (simp_all add: e)
    have nw: "\<not> in_window (ps ! k)" if "k < ?n" for k
      using now that len by (metis nth_mem)
    have hj: "ps' ! k = HaveJobs dl \<longleftrightarrow> (k = i \<and> dl = ?dl)" if "k < ?n" for k dl
    proof (cases "k = i")
      case True
      then show ?thesis using ilen by (auto simp: e)
    next
      case False
      with nw[OF that] show ?thesis by (auto simp: e)
    qed
    have iw: "in_window (ps' ! k) \<longleftrightarrow> k = i" if "k < ?n" for k
    proof (cases "k = i")
      case True
      then show ?thesis using ilen by (simp add: e)
    next
      case False
      with nw[OF that] show ?thesis by (simp add: e)
    qed
    have each': "\<exists>job. map_of jobs (call_job_id (calls ! k)) = Some job \<and>
               map_of d (call_job_id (calls ! k)) =
                 Some (if steps_taken (ps' ! k) = 3 then written job (calls ! k) else job) \<and>
               (\<forall>dl. ps' ! k = HaveJobs dl \<longrightarrow>
                  dl = AList.update (call_job_id (calls ! k)) (written job (calls ! k)) d)"
      if k: "k < ?n" for k
    proof (cases "k = i")
      case True
      have "map_of jobs (call_job_id (calls ! k)) = Some jobi" using ji cj True by simp
      moreover have "map_of d (call_job_id (calls ! k)) =
                 Some (if steps_taken (ps' ! k) = 3 then written jobi (calls ! k) else jobi)"
        using di' cj True st[OF k] HaveAgents by simp
      moreover have "\<forall>dl. ps' ! k = HaveJobs dl \<longrightarrow>
                  dl = AList.update (call_job_id (calls ! k)) (written jobi (calls ! k)) d"
        using hj[OF k] cj wr True by simp
      ultimately show ?thesis by blast
    next
      case False
      from each k obtain job where
        "map_of jobs (call_job_id (calls ! k)) = Some job"
        "map_of d (call_job_id (calls ! k)) =
                 Some (if steps_taken (ps ! k) = 3 then written job (calls ! k) else job)"
        by blast
      then show ?thesis using st[OF k] hj[OF k] False by auto
    qed
    have uniq': "\<forall>k < ?n. \<forall>j < ?n. in_window (ps' ! k) \<and> in_window (ps' ! j) \<longrightarrow> k = j"
      using iw by simp
    show ?thesis
      unfolding undisturbed_def using rd each' frame uniq'
      by (auto simp: e(1))
  next
    case (HaveJobs dl)
    with wi wr have dl: "dl = AList.update (job_id req) (reported jobi req now) d" by simp
    from stp HaveJobs have "report_step req tok now s (ps ! i) = (s\<lparr>jobs_file := Content dl\<rparr>, Done (Inr ()))"
      by simp
    from run_single[OF True ilen c this] run1
    have e: "s' = s\<lparr>jobs_file := Content dl\<rparr>" "ps' = ps[i := Done (Inr ())]" by simp_all
    have rd': "read_json (jobs_file s') = Inr dl" by (simp add: e read_json_def)
    have wini: "in_window (ps ! i)" using HaveJobs by simp
    have nw: "\<not> in_window (ps ! k)" if "k < ?n" "k \<noteq> i" for k
      using uniq that True wini by blast
    have each': "\<exists>job. map_of jobs (call_job_id (calls ! k)) = Some job \<and>
               map_of dl (call_job_id (calls ! k)) =
                 Some (if steps_taken (ps' ! k) = 3 then written job (calls ! k) else job) \<and>
               (\<forall>dl'. ps' ! k = HaveJobs dl' \<longrightarrow>
                  dl' = AList.update (call_job_id (calls ! k)) (written job (calls ! k)) dl)"
      if k: "k < ?n" for k
    proof (cases "k = i")
      case True
      have "map_of jobs (call_job_id (calls ! k)) = Some jobi" using ji cj True by simp
      moreover have "map_of dl (call_job_id (calls ! k)) =
                 Some (if steps_taken (ps' ! k) = 3 then written jobi (calls ! k) else jobi)"
        using cj True ilen wr by (simp add: e dl update_conv')
      moreover have "\<forall>dl'. ps' ! k = HaveJobs dl' \<longrightarrow>
                  dl' = AList.update (call_job_id (calls ! k)) (written jobi (calls ! k)) dl"
        using True ilen by (simp add: e)
      ultimately show ?thesis by blast
    next
      case False
      have ne: "call_job_id (calls ! k) \<noteq> job_id req"
        using call_job_id_distinct[OF own0 k \<open>i < ?n\<close>] False cj by simp
      from each k obtain job where
        1: "map_of jobs (call_job_id (calls ! k)) = Some job"
        and 2: "map_of d (call_job_id (calls ! k)) =
                 Some (if steps_taken (ps ! k) = 3 then written job (calls ! k) else job)"
        by blast
      have 3: "map_of dl (call_job_id (calls ! k)) = map_of d (call_job_id (calls ! k))"
        using ne by (simp add: dl update_conv')
      have 4: "ps' ! k = ps ! k" using False by (simp add: e)
      from nw[OF k False] have 5: "\<forall>dl'. ps ! k \<noteq> HaveJobs dl'" by auto
      from 1 2 3 4 5 show ?thesis by auto
    qed
    have frame': "\<forall>jid. jid \<notin> call_job_id ` set calls \<longrightarrow> map_of dl jid = map_of jobs jid"
    proof (intro allI impI)
      fix jid assume n: "jid \<notin> call_job_id ` set calls"
      have "job_id req \<in> call_job_id ` set calls"
        using mem by (force simp: call_job_id_def)
      with n have "jid \<noteq> job_id req" by auto
      then have "map_of dl jid = map_of d jid" by (simp add: dl update_conv')
      with frame n show "map_of dl jid = map_of jobs jid" by simp
    qed
    have uniq': "\<forall>k < ?n. \<forall>j < ?n. in_window (ps' ! k) \<and> in_window (ps' ! j) \<longrightarrow> k = j"
    proof (intro allI impI)
      fix k j assume k: "k < ?n" and j: "j < ?n" and w: "in_window (ps' ! k) \<and> in_window (ps' ! j)"
      have "k \<noteq> i \<and> j \<noteq> i" using w ilen by (auto simp: e)
      with w have "in_window (ps ! k) \<and> in_window (ps ! j)" by (simp add: e)
      with uniq k j show "k = j" by blast
    qed
    show ?thesis
      unfolding undisturbed_def using rd' each' frame' uniq'
      by auto
  next
    case (Done r)
    with stp have "report_step req tok now s (ps ! i) = (s, Done r)" by simp
    from run_single[OF True ilen c this] run1 Done have e: "s' = s" "ps' = ps"
      by (simp_all add: list_update_id[of ps i, unfolded Done])
    with und show ?thesis by simp
  qed
qed

lemma undisturbed_run:
  "all_ok st A calls (s, ps) \<Longrightarrow> owned_calls st jobs A calls \<Longrightarrow> undisturbed jobs calls (s, ps) \<Longrightarrow>
   windows_disjoint calls schedule (s, ps) \<Longrightarrow> run calls schedule (s, ps) = (s', ps') \<Longrightarrow>
   undisturbed jobs calls (s', ps')"
proof (induction schedule arbitrary: s ps)
  case Nil
  then show ?case by simp
next
  case (Cons i schedule)
  obtain s1 ps1 where r1: "run calls [i] (s, ps) = (s1, ps1)" by (cases "run calls [i] (s, ps)") auto
  from all_ok_step[OF Cons.prems(1) r1] have ok1: "all_ok st A calls (s1, ps1)" by blast
  have both: "(i < length calls \<and> i < length ps \<and> at_read (ps ! i) \<longrightarrow> \<not> list_ex in_window ps)
      \<and> windows_disjoint calls schedule (s1, ps1)"
    using Cons.prems(4) unfolding windows_disjoint.simps r1 .
  then have cond: "i < length calls \<and> i < length ps \<and> at_read (ps ! i) \<longrightarrow> \<not> list_ex in_window ps"
    and wd: "windows_disjoint calls schedule (s1, ps1)"
    by blast+
  have u1: "undisturbed jobs calls (s1, ps1)"
    by (rule undisturbed_step[OF Cons.prems(1) Cons.prems(2) Cons.prems(3) cond r1])
  from Cons.prems(5) have r2: "run calls schedule (s1, ps1) = (s', ps')"
    by (simp only: run_Cons[of calls i schedule] r1)
  show ?case by (rule Cons.IH[OF ok1 Cons.prems(2) u1 wd r2])
qed

lemma all_ok_start:
  assumes "read_json (jobs_file st) = Inr jobs" "owned_calls st jobs A calls"
  shows "all_ok st A calls (st, replicate (length calls) Start)"
  using assms by (auto simp: all_ok_def pc_ok_def)

lemma undisturbed_start:
  assumes "read_json (jobs_file st) = Inr jobs" "owned_calls st jobs A calls"
  shows "undisturbed jobs calls (st, replicate (length calls) Start)"
proof -
  have "\<exists>job. map_of jobs (call_job_id (calls ! i)) = Some job" if "i < length calls" for i
  proof -
    obtain req tok now where c: "calls ! i = (req, tok, now)" by (cases "calls ! i") auto
    with that have "(req, tok, now) \<in> set calls" by (metis nth_mem)
    from owned_calls_member[OF assms(2) this] show ?thesis by (auto simp: c call_job_id_def)
  qed
  then show ?thesis
    unfolding undisturbed_def using assms(1) by auto
qed

section \<open>The shape of the jobs document is an invariant\<close>

lemma jobs_ok_update:
  "jobs_ok jobs \<Longrightarrow> dict_get job ''job_id'' = JStr jid \<Longrightarrow> jobs_ok (AList.update jid job jobs)"
  by (auto simp: jobs_ok_def distinct_update set_update_distinct)

lemma jobs_ok_report:
  assumes "jobs_ok jobs" "map_of jobs jid = Some job"
  shows "jobs_ok (AList.update jid (reported job req now) jobs)"
proof -
  from assms(2) have "(jid, job) \<in> set jobs" by (rule map_of_SomeD)
  with assms(1) have "dict_get job ''job_id'' = JStr jid" by (auto simp: jobs_ok_def)
  then have "dict_get (reported job req now) ''job_id'' = JStr jid"
    by (simp add: dict_get_reported)
  with assms(1) show ?thesis by (rule jobs_ok_update)
qed

lemma jobs_file_register: "jobs_file (fst (register st req a t t1 t2)) = jobs_file st"
  by (simp add: register_def Let_def split: sum.splits)

lemma jobs_file_poll_jobs: "jobs_file (fst (poll_jobs st tok now)) = jobs_file st"
  by (simp add: poll_jobs_def Let_def split: sum.splits prod.splits)

lemma jobs_file_upload: "jobs_file (fst (upload_env_file A st f j x h)) = jobs_file st"
  by (simp add: upload_env_file_def Let_def split: sum.splits option.splits)

lemma jobs_file_create_job:
  "jobs_file st = Content jobs \<Longrightarrow> jobs_ok jobs \<Longrightarrow>
   \<exists>jobs'. jobs_file (fst (create_job A st payload x jid t1 t2)) = Content jobs' \<and> jobs_ok jobs'"
  by (auto simp: create_job_def Let_def read_json_def write_json_def dict_get_def[of "_ # _"]
      split: sum.splits intro!: jobs_ok_update)

lemma jobs_file_report:
  "jobs_file st = Content jobs \<Longrightarrow> jobs_ok jobs \<Longrightarrow>
   \<exists>jobs'. jobs_file (fst (report st req tok now)) = Content jobs' \<and> jobs_ok jobs'"
  by (auto simp: report_def Let_def read_json_def write_json_def
      split: sum.splits option.splits intro!: jobs_ok_report)

lemma reachable_jobs_ok:
  "reachable A st \<Longrightarrow> \<exists>jobs. jobs_file st = Content jobs \<and> jobs_ok jobs"
proof (induction rule: reachable.induct)
  case r_init
  show ?case by (simp add: init_state_def jobs_ok_def)
next
  case (r_register st req agent_id agent_token t1 t2)
  then show ?case by (simp add: jobs_file_register)
next
  case (r_create_job st payload x_admin_token jid t1 t2)
  then show ?case by (auto intro: jobs_file_create_job)
next
  case (r_poll_jobs st x_agent_token now)
  then show ?case by (simp add: jobs_file_poll_jobs)
next
  case (r_report st rreq x_agent_token now)
  then show ?case by (auto intro: jobs_file_report)
next
  case (r_upload_env st env_file env_json x_admin_token hex)
  then show ?case by (simp add: jobs_file_upload)
qed

section \<open>The scenario is reachable\<close>

lemmas ex_defs = ex_state_def ex_agent1_def ex_agent2_def ex_job1_def ex_job2_def ex_job3_def

lemmas run_defs = agent_auth_def read_json_def write_json_def dict_get_def dict_get_default_def
  require_admin_def py_not_def touch_def reported_def

lemma ex_state_run:
  "ex_state =
     fst (create_job None
       (fst (create_job None
         (fst (create_job None
           (fst (register
             (fst (register init_state \<lparr>hostname = ''h1'', ip = None, ssh_pubkey = None, meta = None\<rparr>
                     ''a1'' ''t1'' 1 1))
             \<lparr>hostname = ''h2'', ip = Some '''', ssh_pubkey = None, meta = Some []\<rparr> ''a2'' ''t2'' 2 2))
           [(''agent_id'', JStr ''a1''), (''args'', JArr [JStr ''https://x.git'', JStr ''d.com'']),
            (''is_spa'', JBool False), (''env_token'', JStr ''env_x'')] None ''j1'' 3 3))
         [(''agent_id'', JStr ''a1'')] None ''j2'' 4 4))
       [(''agent_id'', JStr ''a2''), (''is_spa'', JBool True)] None ''j3'' 5 5)"
  by (simp add: ex_defs run_defs init_state_def register_def create_job_def Let_def)

lemma ex_state_reachable: "reachable None ex_state"
  unfolding ex_state_run
  by (intro reachable.intros)

section \<open>Reported jobs and polling (C1)\<close>

text \<open>
  C1, as amended. In a reachable state, when \<open>report\<close> for a job succeeds with a status
  other than the string \<open>pending\<close>, no later \<open>poll_jobs\<close> that finds the jobs document as
  the report left it returns a record with that \<open>job_id\<close>: not to the owning agent and
  not to any other caller.
\<close>

theorem report_then_poll:
  assumes reach: "reachable ADMIN_API_TOKEN st"
    and rep: "report st req x_agent_token now = (st1, Inr ())"
    and stat: "status req \<noteq> ''pending''"
    and same: "jobs_file st2 = jobs_file st1"
    and poll: "poll_jobs st2 x_agent_token' now' = (st3, Inr js)"
    and mem: "job \<in> set js"
  shows "dict_get job ''job_id'' \<noteq> JStr (job_id req)"
proof -
  from reach obtain jobs where jf: "jobs_file st = Content jobs" and ok: "jobs_ok jobs"
    using reachable_jobs_ok by blast
  from rep jf obtain old where old: "map_of jobs (job_id req) = Some old"
    and jf1: "jobs_file st1 = Content (AList.update (job_id req) (reported old req now) jobs)"
    by (auto simp: report_def read_json_def write_json_def split: sum.splits option.splits if_splits)
  let ?jobs1 = "AList.update (job_id req) (reported old req now) jobs"
  from poll same jf1 obtain B where js: "js = pending ?jobs1 B"
    by (auto simp: poll_jobs_def Let_def read_json_def split: sum.splits)
  from mem js have "job \<in> snd ` set ?jobs1" and pend: "dict_get job ''status'' = JStr ''pending''"
    by (auto simp: set_pending)
  then obtain k where k: "(k, job) \<in> set ?jobs1" by auto
  with ok have "(k, job) = (job_id req, reported old req now) \<or> ((k, job) \<in> set jobs \<and> k \<noteq> job_id req)"
    by (auto simp: jobs_ok_def set_update_distinct)
  then show ?thesis
  proof
    assume "(k, job) = (job_id req, reported old req now)"
    then have "dict_get job ''status'' = JStr (status req)" by (simp add: dict_get_reported)
    with pend stat show ?thesis by simp
  next
    assume "(k, job) \<in> set jobs \<and> k \<noteq> job_id req"
    with ok show ?thesis by (auto simp: jobs_ok_def)
  qed
qed

text \<open>
  The scenario: agent \<open>a1\<close> reports \<open>j1\<close> as done and polls again; only \<open>j2\<close> is offered.
\<close>

theorem report_then_poll_witness:
  "reachable None ex_state \<and>
   report ex_state \<lparr>job_id = ''j1'', status = ''done'', output_text = Some ''ok''\<rparr> (Some ''t1'') 6
     = (ex_state\<lparr>jobs_file := Content [(''j1'', reported ex_job1
            \<lparr>job_id = ''j1'', status = ''done'', output_text = Some ''ok''\<rparr> 6), (''j2'', ex_job2), (''j3'', ex_job3)]\<rparr>, Inr ()) \<and>
   snd (poll_jobs (ex_state\<lparr>jobs_file := Content [(''j1'', reported ex_job1
            \<lparr>job_id = ''j1'', status = ''done'', output_text = Some ''ok''\<rparr> 6), (''j2'', ex_job2), (''j3'', ex_job3)]\<rparr>)
          (Some ''t1'') 7) = Inr [ex_job2] \<and>
   dict_get ex_job2 ''job_id'' \<noteq> JStr ''j1''"
proof -
  let ?req = "\<lparr>job_id = ''j1'', status = ''done'', output_text = Some ''ok''\<rparr>"
  let ?st1 = "ex_state\<lparr>jobs_file := Content [(''j1'', reported ex_job1 ?req 6), (''j2'', ex_job2), (''j3'', ex_job3)]\<rparr>"
  have h1: "reachable None ex_state" by (rule ex_state_reachable)
  have h2: "report ex_state ?req (Some ''t1'') 6 = (?st1, Inr ())"
    by (simp add: report_def ex_defs run_defs)
  have h3: "status ?req \<noteq> ''pending''" by simp
  have h4: "jobs_file ?st1 = jobs_file ?st1" by simp
  have h5s: "snd (poll_jobs ?st1 (Some ''t1'') 7) = Inr [ex_job2]"
    by (simp add: poll_jobs_def ex_defs run_defs Let_def)
  then have h5: "poll_jobs ?st1 (Some ''t1'') 7 = (fst (poll_jobs ?st1 (Some ''t1'') 7), Inr [ex_job2])"
    by (metis prod.collapse)
  have h6: "ex_job2 \<in> set [ex_job2]" by simp
  from report_then_poll[OF h1 h2 h3 h4 h5 h6] h1 h2 h5s show ?thesis by simp
qed

text \<open>
  C1 as stated (any status string) fails: the status is stored as given, so a report
  with the status \<open>pending\<close> succeeds and the next poll of the owner offers \<open>j1\<close> again.
\<close>

theorem report_pending_counterexample:
  "report ex_state \<lparr>job_id = ''j1'', status = ''pending'', output_text = Some ''ok''\<rparr> (Some ''t1'') 6
     = (ex_state\<lparr>jobs_file := Content [(''j1'', reported ex_job1
            \<lparr>job_id = ''j1'', status = ''pending'', output_text = Some ''ok''\<rparr> 6), (''j2'', ex_job2), (''j3'', ex_job3)]\<rparr>, Inr ()) \<and>
   map (\<lambda>job. dict_get job ''job_id'')
     (projr (snd (poll_jobs (ex_state\<lparr>jobs_file := Content [(''j1'', reported ex_job1
            \<lparr>job_id = ''j1'', status = ''pending'', output_text = Some ''ok''\<rparr> 6), (''j2'', ex_job2), (''j3'', ex_job3)]\<rparr>)
          (Some ''t1'') 7))) = [JStr ''j1'', JStr ''j2'']"
  by (simp add: report_def poll_jobs_def ex_defs run_defs Let_def)

section \<open>Concurrent reports (C2)\<close>

text \<open>Calls on pairwise distinct jobs of one agent that run one after the other.\<close>

lemma report_all_sequential:
  assumes "read_json (jobs_file st) = Inr jobs"
    and "owned_calls st jobs A calls"
    and "report_all st calls = (st', rs)"
  shows "rs = map (\<lambda>c. Inr ()) calls \<and>
   (\<exists>jobs'. read_json (jobs_file st') = Inr jobs' \<and>
      (\<forall>(req, tok, now) \<in> set calls. \<exists>job. map_of jobs (job_id req) = Some job \<and>
           map_of jobs' (job_id req) = Some (reported job req now)) \<and>
      (\<forall>jid. jid \<notin> (\<lambda>(req, tok, now). job_id req) ` set calls \<longrightarrow> map_of jobs' jid = map_of jobs jid))"
  using assms
proof (induction calls arbitrary: st jobs st' rs)
  case Nil
  then show ?case by simp
next
  case (Cons c calls)
  obtain req tok now where c: "c = (req, tok, now)" by (cases c) auto
  let ?ids = "(\<lambda>(req, tok, now). job_id req) ` set calls"
  from Cons.prems(2) have oc: "job_id req \<notin> ?ids \<and>
     (\<exists>agents. agent_auth st tok = Inr (agents, A)) \<and>
     (\<exists>job. map_of jobs (job_id req) = Some job \<and> dict_get job ''agent_id'' = JStr A) \<and>
     owned_calls st jobs A calls"
    unfolding c owned_calls_Cons .
  then obtain agents job where
      auth: "agent_auth st tok = Inr (agents, A)"
    and job: "map_of jobs (job_id req) = Some job"
    and own: "dict_get job ''agent_id'' = JStr A"
    and fresh: "job_id req \<notin> ?ids"
    and rest: "owned_calls st jobs A calls"
    by blast
  let ?jobs1 = "AList.update (job_id req) (reported job req now) jobs"
  let ?st1 = "st\<lparr>jobs_file := Content ?jobs1\<rparr>"
  have rep: "report st req tok now = (?st1, Inr ())"
    using auth Cons.prems(1) job own by (rule report_success)
  have rd1: "read_json (jobs_file ?st1) = Inr ?jobs1" by (simp add: read_json_def)
  have other: "map_of ?jobs1 jid = map_of jobs jid" if "jid \<noteq> job_id req" for jid
    using that by (simp add: update_conv')
  have owned1: "owned_calls ?st1 ?jobs1 A calls"
    by (rule owned_calls_step[OF rest fresh]) simp
  obtain st2 rs1 where run1: "report_all ?st1 calls = (st2, rs1)"
    by (cases "report_all ?st1 calls") auto
  from Cons.prems(3) have st': "st' = st2" and rs: "rs = Inr () # rs1"
    unfolding c by (simp_all add: rep run1)
  from Cons.IH[OF rd1 owned1 run1] obtain jobs' where
      rs1: "rs1 = map (\<lambda>c. Inr ()) calls"
    and rd': "read_json (jobs_file st2) = Inr jobs'"
    and each: "\<forall>(req, tok, now) \<in> set calls. \<exists>job. map_of ?jobs1 (job_id req) = Some job \<and>
           map_of jobs' (job_id req) = Some (reported job req now)"
    and frame: "\<forall>jid. jid \<notin> ?ids \<longrightarrow> map_of jobs' jid = map_of ?jobs1 jid"
    by blast
  have first: "map_of jobs' (job_id req) = Some (reported job req now)"
    using frame fresh by (simp add: update_conv')
  have each': "\<exists>job. map_of jobs (job_id req') = Some job \<and>
           map_of jobs' (job_id req') = Some (reported job req' now')"
    if mem: "(req', tok', now') \<in> set calls" for req' tok' now'
  proof -
    from mem have "job_id req' \<in> ?ids" by force
    with fresh have ne: "job_id req' \<noteq> job_id req" by metis
    from each mem have "\<exists>job. map_of ?jobs1 (job_id req') = Some job \<and>
           map_of jobs' (job_id req') = Some (reported job req' now')"
      by blast
    then show ?thesis unfolding other[OF ne] .
  qed
  have all: "\<forall>(req, tok, now) \<in> set (c # calls). \<exists>job. map_of jobs (job_id req) = Some job \<and>
           map_of jobs' (job_id req) = Some (reported job req now)"
  proof (intro ballI)
    fix x assume x: "x \<in> set (c # calls)"
    obtain req' tok' now' where x': "x = (req', tok', now')" by (cases x) auto
    show "case x of (req, tok, now) \<Rightarrow> \<exists>job. map_of jobs (job_id req) = Some job \<and>
           map_of jobs' (job_id req) = Some (reported job req now)"
    proof (cases "x = c")
      case True
      with c job first show ?thesis by simp
    next
      case False
      with x x' have "(req', tok', now') \<in> set calls" by simp
      from each'[OF this] show ?thesis by (simp add: x')
    qed
  qed
  have frame': "\<forall>jid. jid \<notin> (\<lambda>(req, tok, now). job_id req) ` set (c # calls) \<longrightarrow>
                  map_of jobs' jid = map_of jobs jid"
  proof (intro allI impI)
    fix jid assume "jid \<notin> (\<lambda>(req, tok, now). job_id req) ` set (c # calls)"
    then have ne: "jid \<noteq> job_id req" and nin: "jid \<notin> ?ids" by (simp_all add: c)
    from frame nin have "map_of jobs' jid = map_of ?jobs1 jid" by blast
    then show "map_of jobs' jid = map_of jobs jid" unfolding other[OF ne] .
  qed
  have "rs = map (\<lambda>c. Inr ()) (c # calls)" by (simp add: rs rs1)
  moreover have "read_json (jobs_file st') = Inr jobs'" by (simp add: st' rd')
  ultimately show ?case using all frame' by blast
qed

text \<open>
  C2, as amended. The lock is held during each read and during each write of a
  document, and is free between the read and the write-back of one call. For \<open>report\<close>
  calls on pairwise distinct jobs of one agent, under every schedule of their steps:
  every call that returns, returns \<open>ok\<close>, and a call returns once it has taken its three
  steps. When no call reads the jobs document while another call is between its read
  and its write-back, the final record of every job whose call has returned is the one
  that call wrote, and every job that no call names is as it was.
\<close>

theorem concurrent_reports:
  assumes rd: "read_json (jobs_file st) = Inr jobs"
    and own: "owned_calls st jobs A calls"
    and run: "run calls schedule (st, replicate (length calls) Start) = (st', pcs)"
  shows "(\<forall>i < length calls. (\<forall>r. pcs ! i = Done r \<longrightarrow> r = Inr ()) \<and>
                              (3 \<le> count_list schedule i \<longrightarrow> pcs ! i = Done (Inr ())))
       \<and> (windows_disjoint calls schedule (st, replicate (length calls) Start) \<longrightarrow>
           (\<exists>jobs'. read_json (jobs_file st') = Inr jobs' \<and>
              (\<forall>i < length calls. pcs ! i = Done (Inr ()) \<longrightarrow>
                 (case calls ! i of (req, tok, now) \<Rightarrow>
                    \<exists>job. map_of jobs (job_id req) = Some job \<and>
                          map_of jobs' (job_id req) = Some (reported job req now))) \<and>
              (\<forall>jid. jid \<notin> (\<lambda>(req, tok, now). job_id req) ` set calls \<longrightarrow>
                 map_of jobs' jid = map_of jobs jid)))"
proof (rule conjI)
  note ok0 = all_ok_start[OF rd own]
  from all_ok_run[OF ok0 run] have ok': "all_ok st A calls (st', pcs)"
    and cnt: "\<forall>j < length calls. steps_taken (pcs ! j) =
                min 3 (steps_taken (replicate (length calls) Start ! j) + count_list schedule j)"
    by blast+
  show "\<forall>i < length calls. (\<forall>r. pcs ! i = Done r \<longrightarrow> r = Inr ()) \<and>
                              (3 \<le> count_list schedule i \<longrightarrow> pcs ! i = Done (Inr ()))"
  proof (intro allI impI)
    fix i assume i: "i < length calls"
    from ok' i have pk: "pc_ok st A calls (pcs ! i)" by (simp add: all_ok_def)
    then have a: "\<forall>r. pcs ! i = Done r \<longrightarrow> r = Inr ()" by (auto simp: pc_ok_def)
    have b: "pcs ! i = Done (Inr ())" if "3 \<le> count_list schedule i"
    proof -
      from cnt i that have "steps_taken (pcs ! i) = 3" by simp
      then obtain r where "pcs ! i = Done r" by (auto simp: steps_taken_3)
      with a show ?thesis by simp
    qed
    from a b show "(\<forall>r. pcs ! i = Done r \<longrightarrow> r = Inr ()) \<and>
                   (3 \<le> count_list schedule i \<longrightarrow> pcs ! i = Done (Inr ()))" by blast
  qed
next
  show "windows_disjoint calls schedule (st, replicate (length calls) Start) \<longrightarrow>
           (\<exists>jobs'. read_json (jobs_file st') = Inr jobs' \<and>
              (\<forall>i < length calls. pcs ! i = Done (Inr ()) \<longrightarrow>
                 (case calls ! i of (req, tok, now) \<Rightarrow>
                    \<exists>job. map_of jobs (job_id req) = Some job \<and>
                          map_of jobs' (job_id req) = Some (reported job req now))) \<and>
              (\<forall>jid. jid \<notin> (\<lambda>(req, tok, now). job_id req) ` set calls \<longrightarrow>
                 map_of jobs' jid = map_of jobs jid))"
  proof
    assume wd: "windows_disjoint calls schedule (st, replicate (length calls) Start)"
    have u: "undisturbed jobs calls (st', pcs)"
      by (rule undisturbed_run[OF all_ok_start[OF rd own] own undisturbed_start[OF rd own] wd run])
    then obtain dc where rd': "read_json (jobs_file st') = Inr dc"
      and each: "\<forall>i < length calls. \<exists>job. map_of jobs (call_job_id (calls ! i)) = Some job \<and>
               map_of dc (call_job_id (calls ! i)) =
                 Some (if steps_taken (pcs ! i) = 3 then written job (calls ! i) else job)"
      and frame: "\<forall>jid. jid \<notin> call_job_id ` set calls \<longrightarrow> map_of dc jid = map_of jobs jid"
      unfolding undisturbed_def by fastforce
    have e: "(\<lambda>(req, tok, now). job_id req) = call_job_id"
      by (auto simp: call_job_id_def fun_eq_iff)
    have each': "case calls ! i of (req, tok, now) \<Rightarrow>
                    \<exists>job. map_of jobs (job_id req) = Some job \<and>
                          map_of dc (job_id req) = Some (reported job req now)"
      if i: "i < length calls" and d: "pcs ! i = Done (Inr ())" for i
    proof -
      obtain req tok now where c: "calls ! i = (req, tok, now)" by (cases "calls ! i") auto
      from each i obtain job where "map_of jobs (call_job_id (calls ! i)) = Some job"
        "map_of dc (call_job_id (calls ! i)) =
                 Some (if steps_taken (pcs ! i) = 3 then written job (calls ! i) else job)"
        by blast
      then show ?thesis using d by (simp add: c call_job_id_def written_def)
    qed
    from rd' each' frame show "\<exists>jobs'. read_json (jobs_file st') = Inr jobs' \<and>
              (\<forall>i < length calls. pcs ! i = Done (Inr ()) \<longrightarrow>
                 (case calls ! i of (req, tok, now) \<Rightarrow>
                    \<exists>job. map_of jobs (job_id req) = Some job \<and>
                          map_of jobs' (job_id req) = Some (reported job req now))) \<and>
              (\<forall>jid. jid \<notin> (\<lambda>(req, tok, now). job_id req) ` set calls \<longrightarrow>
                 map_of jobs' jid = map_of jobs jid)"
      unfolding e by blast
  qed
qed

text \<open>
  Both calls of agent \<open>a1\<close> read the agents document first; then the first call reads
  and writes the jobs document, then the second.
\<close>

theorem concurrent_reports_witness:
  "owned_calls ex_state [(''j1'', ex_job1), (''j2'', ex_job2), (''j3'', ex_job3)] ''a1'' ex_calls \<and>
   windows_disjoint ex_calls [0, 1, 0, 0, 1, 1] (ex_state, [Start, Start]) \<and>
   run ex_calls [0, 1, 0, 0, 1, 1] (ex_state, [Start, Start]) =
     (ex_state\<lparr>jobs_file := Content
         [(''j1'', reported ex_job1 \<lparr>job_id = ''j1'', status = ''done'', output_text = Some ''one''\<rparr> 6),
          (''j2'', reported ex_job2 \<lparr>job_id = ''j2'', status = ''failed'', output_text = Some ''two''\<rparr> 7),
          (''j3'', ex_job3)]\<rparr>,
      [Done (Inr ()), Done (Inr ())])"
proof -
  let ?jobs = "[(''j1'', ex_job1), (''j2'', ex_job2), (''j3'', ex_job3)]"
  let ?st' = "ex_state\<lparr>jobs_file := Content
         [(''j1'', reported ex_job1 \<lparr>job_id = ''j1'', status = ''done'', output_text = Some ''one''\<rparr> 6),
          (''j2'', reported ex_job2 \<lparr>job_id = ''j2'', status = ''failed'', output_text = Some ''two''\<rparr> 7),
          (''j3'', ex_job3)]\<rparr>"
  have h1: "read_json (jobs_file ex_state) = Inr ?jobs"
    by (simp add: ex_state_def read_json_def)
  have a: "agent_auth ex_state (Some ''t1'') = Inr ([(''a1'', ex_agent1), (''a2'', ex_agent2)], ''a1'')"
    by (simp add: ex_defs run_defs)
  have h2: "owned_calls ex_state ?jobs ''a1'' ex_calls"
    by (simp add: owned_calls_def ex_calls_def a) (simp add: ex_defs dict_get_def)
  have h3: "run ex_calls [0, 1, 0, 0, 1, 1] (ex_state, replicate (length ex_calls) Start) =
              (?st', [Done (Inr ()), Done (Inr ())])"
    by (simp add: ex_calls_def report_step_def ex_defs run_defs)
  have w: "windows_disjoint ex_calls [0, 1, 0, 0, 1, 1] (ex_state, replicate (length ex_calls) Start)"
    by (simp add: ex_calls_def report_step_def ex_defs run_defs)
  have l: "replicate (length ex_calls) Start = [Start, Start]"
    by (simp add: ex_calls_def)
  from concurrent_reports[OF h1 h2 h3] w
  have "\<exists>jobs'. read_json (jobs_file ?st') = Inr jobs'" by blast
  with h2 h3 w show ?thesis unfolding l by blast
qed

text \<open>
  C2 as stated fails. Two calls of agent \<open>a1\<close> on the distinct jobs \<open>j1\<close> and \<open>j2\<close>, their
  steps alternating: both read the jobs document before either writes it, both return
  \<open>ok\<close>, and the second write puts back a copy in which \<open>j1\<close> is still pending and has no
  \<open>output\<close>: the record of the first call is overwritten.
\<close>

theorem concurrent_reports_counterexample:
  "run ex_calls [0, 1, 0, 1, 0, 1] (ex_state, [Start, Start]) =
     (ex_state\<lparr>jobs_file := Content [(''j1'', ex_job1),
          (''j2'', reported ex_job2 \<lparr>job_id = ''j2'', status = ''failed'', output_text = Some ''two''\<rparr> 7),
          (''j3'', ex_job3)]\<rparr>,
      [Done (Inr ()), Done (Inr ())]) \<and>
   dict_get ex_job1 ''status'' = JStr ''pending''"
  by (simp add: ex_calls_def report_step_def ex_defs run_defs)

text \<open>In that schedule the second call reads the jobs document inside the window of the first.\<close>

lemma alternating_windows_overlap:
  "\<not> windows_disjoint ex_calls [0, 1, 0, 1, 0, 1] (ex_state, [Start, Start])"
  by (simp add: ex_calls_def report_step_def ex_defs run_defs)

section \<open>Downloading a bundle (C3, C10)\<close>

lemma split_path_plain: "CHR ''/'' \<notin> set T \<Longrightarrow> split_path T = [T]"
  by (induction T) auto

lemma locate_plain: "CHR ''/'' \<notin> set T \<Longrightarrow> locate T = Bundle T"
  by (cases T) (auto simp: locate_def split_path_plain)

lemma bundle_file_plain:
  "CHR ''/'' \<notin> set T \<Longrightarrow> CHR 0x00 \<notin> set T \<Longrightarrow> bundle_file elsewhere st T = envs_dir st T"
  by (simp add: bundle_file_def locate_plain)

lemma download_env_needs_job:
  assumes "agent_auth st x_agent_token = Inr (agents, A)"
    and "read_json (jobs_file st) = Inr jobs"
    and "snd (download_env elsewhere st T x_agent_token) = Inr v"
  shows "\<exists>job \<in> snd ` set jobs. dict_get job ''agent_id'' = JStr A \<and>
           dict_get job ''status'' = JStr ''pending'' \<and> dict_get job ''env_token'' = JStr T"
proof -
  from assms have "references jobs A T"
    by (auto simp: download_env_def split: if_splits)
  then show ?thesis by (simp only: references_iff)
qed

lemma download_env_found:
  assumes "agent_auth st x_agent_token = Inr (agents, A)"
    and "read_json (jobs_file st) = Inr jobs"
    and "references jobs A T"
    and "bundle_file elsewhere st T = Content v"
  shows "download_env elsewhere st T x_agent_token = (st, JSONResponse v)"
  using assms by (simp add: download_env_def)

text \<open>
  C3, as amended. For an authenticated agent \<open>A\<close> and a readable jobs document,
  \<open>download_env\<close> of token \<open>T\<close> succeeds only if some job has \<open>agent_id = A\<close>,
  \<open>status = pending\<close> and \<open>env_token = T\<close>, so it fails as soon as no such job is pending.
  When \<open>T\<close> is a plain file name (no \<open>/\<close>, no NUL byte) and the value stored under it, if
  any, has no non-finite number and no surrogate, it succeeds exactly when such a
  job exists and the bundle file \<open>envs/T.json\<close> exists and parses.
\<close>

theorem download_env_iff:
  assumes "agent_auth st x_agent_token = Inr (agents, A)"
    and "read_json (jobs_file st) = Inr jobs"
  shows "((\<exists>v. snd (download_env elsewhere st T x_agent_token) = Inr v) \<longrightarrow>
            (\<exists>job \<in> snd ` set jobs. dict_get job ''agent_id'' = JStr A \<and>
               dict_get job ''status'' = JStr ''pending'' \<and> dict_get job ''env_token'' = JStr T))
       \<and> (CHR ''/'' \<notin> set T \<and> CHR 0x00 \<notin> set T \<and>
            (\<forall>v. envs_dir st T = Content v \<longrightarrow> \<not> non_finite v \<and> \<not> has_surrogate v) \<longrightarrow>
            ((\<exists>v. snd (download_env elsewhere st T x_agent_token) = Inr v) \<longleftrightarrow>
               (\<exists>job \<in> snd ` set jobs. dict_get job ''agent_id'' = JStr A \<and>
                  dict_get job ''status'' = JStr ''pending'' \<and> dict_get job ''env_token'' = JStr T)
               \<and> (\<exists>v. envs_dir st T = Content v)))"
proof (intro conjI impI)
  assume "\<exists>v. snd (download_env elsewhere st T x_agent_token) = Inr v"
  then show "\<exists>job \<in> snd ` set jobs. dict_get job ''agent_id'' = JStr A \<and>
               dict_get job ''status'' = JStr ''pending'' \<and> dict_get job ''env_token'' = JStr T"
    using download_env_needs_job[OF assms] by blast
next
  assume plain: "CHR ''/'' \<notin> set T \<and> CHR 0x00 \<notin> set T \<and>
            (\<forall>v. envs_dir st T = Content v \<longrightarrow> \<not> non_finite v \<and> \<not> has_surrogate v)"
  then have bf: "bundle_file elsewhere st T = envs_dir st T"
    by (simp add: bundle_file_plain)
  have r: "references jobs A T \<longleftrightarrow>
     (\<exists>job \<in> snd ` set jobs. dict_get job ''agent_id'' = JStr A \<and>
        dict_get job ''status'' = JStr ''pending'' \<and> dict_get job ''env_token'' = JStr T)"
    by (rule references_iff)
  show "(\<exists>v. snd (download_env elsewhere st T x_agent_token) = Inr v) \<longleftrightarrow>
               (\<exists>job \<in> snd ` set jobs. dict_get job ''agent_id'' = JStr A \<and>
                  dict_get job ''status'' = JStr ''pending'' \<and> dict_get job ''env_token'' = JStr T)
               \<and> (\<exists>v. envs_dir st T = Content v)"
    unfolding r[symmetric] using assms plain
    by (cases "envs_dir st T") (simp_all add: download_env_def bf JSONResponse_def)
qed

text \<open>
  With the bundle \<open>env_x\<close> uploaded, agent \<open>a1\<close> (pending job \<open>j1\<close> refers to it) succeeds
  and agent \<open>a2\<close> does not.
\<close>

theorem download_env_iff_witness:
  "(\<exists>v. snd (download_env (\<lambda>p. Absent)
              (ex_state\<lparr>envs_dir := (\<lambda>t. Absent)(''env_x'' := Content (JObj [(''K'', JStr ''v'')]))\<rparr>)
              ''env_x'' (Some ''t1'')) = Inr v) \<and>
   \<not> (\<exists>v. snd (download_env (\<lambda>p. Absent)
              (ex_state\<lparr>envs_dir := (\<lambda>t. Absent)(''env_x'' := Content (JObj [(''K'', JStr ''v'')]))\<rparr>)
              ''env_x'' (Some ''t2'')) = Inr v)"
proof -
  let ?st = "ex_state\<lparr>envs_dir := (\<lambda>t. Absent)(''env_x'' := Content (JObj [(''K'', JStr ''v'')]))\<rparr>"
  let ?jobs = "[(''j1'', ex_job1), (''j2'', ex_job2), (''j3'', ex_job3)]"
  have a1: "agent_auth ?st (Some ''t1'') = Inr ([(''a1'', ex_agent1), (''a2'', ex_agent2)], ''a1'')"
    by (simp add: ex_defs run_defs)
  have a2: "agent_auth ?st (Some ''t2'') = Inr ([(''a1'', ex_agent1), (''a2'', ex_agent2)], ''a2'')"
    by (simp add: ex_defs run_defs)
  have r: "read_json (jobs_file ?st) = Inr ?jobs"
    by (simp add: ex_state_def read_json_def)
  have p: "CHR ''/'' \<notin> set ''env_x'' \<and> CHR 0x00 \<notin> set ''env_x'' \<and>
            (\<forall>v. envs_dir ?st ''env_x'' = Content v \<longrightarrow> \<not> non_finite v \<and> \<not> has_surrogate v)"
    by simp
  have q1: "(\<exists>job \<in> snd ` set ?jobs. dict_get job ''agent_id'' = JStr ''a1'' \<and>
              dict_get job ''status'' = JStr ''pending'' \<and> dict_get job ''env_token'' = JStr ''env_x'')
          \<and> (\<exists>v. envs_dir ?st ''env_x'' = Content v)"
    by (simp add: ex_defs dict_get_def)
  have q2: "\<not> (\<exists>job \<in> snd ` set ?jobs. dict_get job ''agent_id'' = JStr ''a2'' \<and>
              dict_get job ''status'' = JStr ''pending'' \<and> dict_get job ''env_token'' = JStr ''env_x'')"
    by (simp add: ex_defs dict_get_def)
  from download_env_iff[OF a1 r, of "\<lambda>p. Absent" "''env_x''"] p q1
  have 1: "\<exists>v. snd (download_env (\<lambda>p. Absent) ?st ''env_x'' (Some ''t1'')) = Inr v" by blast
  from download_env_iff[OF a2 r, of "\<lambda>p. Absent" "''env_x''"] q2
  have 2: "\<not> (\<exists>v. snd (download_env (\<lambda>p. Absent) ?st ''env_x'' (Some ''t2'')) = Inr v)" by blast
  from 1 2 show ?thesis by blast
qed

text \<open>
  C3 as stated fails from right to left: job \<open>j1\<close> of agent \<open>a1\<close> is pending and refers
  to \<open>env_x\<close>, no bundle is stored under \<open>env_x\<close>, and the download fails with 404.
\<close>

theorem download_env_missing_bundle_counterexample:
  "map_of [(''j1'', ex_job1), (''j2'', ex_job2), (''j3'', ex_job3)] ''j1'' = Some ex_job1 \<and>
   dict_get ex_job1 ''agent_id'' = JStr ''a1'' \<and> dict_get ex_job1 ''status'' = JStr ''pending'' \<and>
   dict_get ex_job1 ''env_token'' = JStr ''env_x'' \<and>
   agent_auth ex_state (Some ''t1'') = Inr ([(''a1'', ex_agent1), (''a2'', ex_agent2)], ''a1'') \<and>
   download_env (\<lambda>p. Absent) ex_state ''env_x'' (Some ''t1'') =
     (ex_state, Inl (HTTPException 404 ''env token not found''))"
  by (simp add: download_env_def bundle_file_def locate_def ex_defs run_defs)

text \<open>
  The token is not checked before it is joined into the path: when a pending job of
  agent \<open>a1\<close> refers to \<open>../jobs\<close>, the download of \<open>../jobs\<close> returns the jobs document,
  although no bundle is stored under that token.
\<close>

lemma download_env_reads_jobs_document:
  "bundle_file (\<lambda>p. Absent) st ''../jobs'' = as_json (jobs_file st)"
  by (simp add: bundle_file_def locate_def)

text \<open>
  C10. In \<open>download_env\<close> the derived authorization comes first: an authenticated agent
  none of whose jobs is pending with this \<open>env_token\<close> gets 403 whatever the file
  system holds, and a 404 answer means that such a job exists and that the bundle
  file does not: \<open>os.path.exists\<close> was false, and for a plain file name there is no
  \<open>envs/<env_token>.json\<close>.
\<close>

theorem download_env_auth_before_existence:
  "(\<forall>agents A jobs. agent_auth st x_agent_token = Inr (agents, A) \<and> read_json (jobs_file st) = Inr jobs
       \<and> \<not> (\<exists>job \<in> snd ` set jobs. dict_get job ''agent_id'' = JStr A \<and>
               dict_get job ''status'' = JStr ''pending'' \<and> dict_get job ''env_token'' = JStr env_token)
     \<longrightarrow> download_env elsewhere st env_token x_agent_token =
           (st, Inl (HTTPException 403 ''no job for this agent references this env token'')))
   \<and> (\<forall>d. snd (download_env elsewhere st env_token x_agent_token) = Inl (HTTPException 404 d)
     \<longrightarrow> (\<exists>agents A jobs. agent_auth st x_agent_token = Inr (agents, A) \<and> read_json (jobs_file st) = Inr jobs
           \<and> (\<exists>job \<in> snd ` set jobs. dict_get job ''agent_id'' = JStr A \<and>
               dict_get job ''status'' = JStr ''pending'' \<and> dict_get job ''env_token'' = JStr env_token)
           \<and> bundle_file elsewhere st env_token = Absent
           \<and> (CHR ''/'' \<notin> set env_token \<and> CHR 0x00 \<notin> set env_token \<longrightarrow> envs_dir st env_token = Absent)))"
proof (rule conjI)
  show "\<forall>agents A jobs. agent_auth st x_agent_token = Inr (agents, A) \<and> read_json (jobs_file st) = Inr jobs
       \<and> \<not> (\<exists>job \<in> snd ` set jobs. dict_get job ''agent_id'' = JStr A \<and>
               dict_get job ''status'' = JStr ''pending'' \<and> dict_get job ''env_token'' = JStr env_token)
     \<longrightarrow> download_env elsewhere st env_token x_agent_token =
           (st, Inl (HTTPException 403 ''no job for this agent references this env token''))"
    unfolding references_iff[symmetric] by (simp add: download_env_def)
next
  show "\<forall>d. snd (download_env elsewhere st env_token x_agent_token) = Inl (HTTPException 404 d)
     \<longrightarrow> (\<exists>agents A jobs. agent_auth st x_agent_token = Inr (agents, A) \<and> read_json (jobs_file st) = Inr jobs
           \<and> (\<exists>job \<in> snd ` set jobs. dict_get job ''agent_id'' = JStr A \<and>
               dict_get job ''status'' = JStr ''pending'' \<and> dict_get job ''env_token'' = JStr env_token)
           \<and> bundle_file elsewhere st env_token = Absent
           \<and> (CHR ''/'' \<notin> set env_token \<and> CHR 0x00 \<notin> set env_token \<longrightarrow> envs_dir st env_token = Absent))"
  proof (intro allI impI)
    fix d assume nf: "snd (download_env elsewhere st env_token x_agent_token) = Inl (HTTPException 404 d)"
    then obtain agents A where auth: "agent_auth st x_agent_token = Inr (agents, A)"
      by (cases "agent_auth st x_agent_token")
         (auto simp: download_env_def agent_auth_def read_json_def
               split: option.splits if_splits on_disk.splits sum.splits)
    from nf auth obtain jobs where rd: "read_json (jobs_file st) = Inr jobs"
      by (cases "read_json (jobs_file st)")
         (auto simp: download_env_def read_json_def split: on_disk.splits)
    from nf auth rd have ref: "references jobs A env_token"
      by (auto simp: download_env_def split: if_splits)
    from nf auth rd ref have ab: "bundle_file elsewhere st env_token = Absent"
      by (cases "bundle_file elsewhere st env_token")
         (auto simp: download_env_def JSONResponse_def split: if_splits)
    have pl: "CHR ''/'' \<notin> set env_token \<and> CHR 0x00 \<notin> set env_token \<longrightarrow> envs_dir st env_token = Absent"
      using ab by (auto simp: bundle_file_plain)
    from ref have q: "\<exists>job \<in> snd ` set jobs. dict_get job ''agent_id'' = JStr A \<and>
               dict_get job ''status'' = JStr ''pending'' \<and> dict_get job ''env_token'' = JStr env_token"
      by (simp only: references_iff)
    from auth rd q ab pl
    show "\<exists>agents A jobs. agent_auth st x_agent_token = Inr (agents, A) \<and> read_json (jobs_file st) = Inr jobs
           \<and> (\<exists>job \<in> snd ` set jobs. dict_get job ''agent_id'' = JStr A \<and>
               dict_get job ''status'' = JStr ''pending'' \<and> dict_get job ''env_token'' = JStr env_token)
           \<and> bundle_file elsewhere st env_token = Absent
           \<and> (CHR ''/'' \<notin> set env_token \<and> CHR 0x00 \<notin> set env_token \<longrightarrow> envs_dir st env_token = Absent)"
      by blast
  qed
qed

text \<open>
  Agent \<open>a1\<close> asks for \<open>env_y\<close>, which no job mentions and which is not stored: 403.
  It asks for \<open>env_x\<close>, which its pending job \<open>j1\<close> mentions and which is not stored: 404.
\<close>

theorem download_env_auth_before_existence_witness:
  "envs_dir ex_state ''env_y'' = Absent \<and>
   download_env (\<lambda>p. Absent) ex_state ''env_y'' (Some ''t1'') =
     (ex_state, Inl (HTTPException 403 ''no job for this agent references this env token'')) \<and>
   snd (download_env (\<lambda>p. Absent) ex_state ''env_x'' (Some ''t1'')) =
     Inl (HTTPException 404 ''env token not found'') \<and>
   dict_get ex_job1 ''env_token'' = JStr ''env_x'' \<and>
   envs_dir ex_state ''env_x'' = Absent"
proof -
  let ?jobs = "[(''j1'', ex_job1), (''j2'', ex_job2), (''j3'', ex_job3)]"
  have a: "agent_auth ex_state (Some ''t1'') = Inr ([(''a1'', ex_agent1), (''a2'', ex_agent2)], ''a1'')"
    by (simp add: ex_defs run_defs)
  have r: "read_json (jobs_file ex_state) = Inr ?jobs"
    by (simp add: ex_state_def read_json_def)
  have n: "\<not> (\<exists>job \<in> snd ` set ?jobs. dict_get job ''agent_id'' = JStr ''a1'' \<and>
               dict_get job ''status'' = JStr ''pending'' \<and> dict_get job ''env_token'' = JStr ''env_y'')"
    by (simp add: ex_defs dict_get_def)
  have f: "snd (download_env (\<lambda>p. Absent) ex_state ''env_x'' (Some ''t1'')) =
             Inl (HTTPException 404 ''env token not found'')"
    by (simp add: download_env_def bundle_file_def locate_def ex_defs run_defs)
  have e: "envs_dir ex_state ''env_y'' = Absent" by (simp add: ex_state_def)
  have t: "dict_get ex_job1 ''env_token'' = JStr ''env_x''" by (simp add: ex_job1_def dict_get_def)
  have pl: "CHR ''/'' \<notin> set ''env_x'' \<and> CHR 0x00 \<notin> set ''env_x''" by simp
  from download_env_auth_before_existence[of ex_state "Some ''t1''" "''env_y''" "\<lambda>p. Absent"] a r n
  have 1: "download_env (\<lambda>p. Absent) ex_state ''env_y'' (Some ''t1'') =
     (ex_state, Inl (HTTPException 403 ''no job for this agent references this env token''))"
    by blast
  from download_env_auth_before_existence[of ex_state "Some ''t1''" "''env_x''" "\<lambda>p. Absent"] f pl
  have 2: "envs_dir ex_state ''env_x'' = Absent"
    by blast
  from e 1 f t 2 show ?thesis by blast
qed

section \<open>Ownership (C4, C5)\<close>

text \<open>
  C4. A \<open>report\<close> with a valid agent token whose agent is not the \<open>agent_id\<close> of the target
  job fails with 403 and returns the state it was given: the jobs document, and with
  it the job's \<open>status\<close>, \<open>output\<close> and \<open>updated\<close>, is untouched.
\<close>

theorem report_not_owner:
  assumes "agent_auth st x_agent_token = Inr (agents, agent_id)"
    and "read_json (jobs_file st) = Inr jobs"
    and "map_of jobs (job_id req) = Some job"
    and "dict_get job ''agent_id'' \<noteq> JStr agent_id"
  shows "report st req x_agent_token now =
           (st, Inl (HTTPException 403 ''job does not belong to this agent''))"
  using assms by (simp add: report_def)

text \<open>Agent \<open>a2\<close> reports on \<open>j1\<close>, a job of \<open>a1\<close>.\<close>

theorem report_not_owner_witness:
  "report ex_state \<lparr>job_id = ''j1'', status = ''done'', output_text = Some ''x''\<rparr> (Some ''t2'') 6 =
     (ex_state, Inl (HTTPException 403 ''job does not belong to this agent''))"
proof -
  have h1: "agent_auth ex_state (Some ''t2'') = Inr ([(''a1'', ex_agent1), (''a2'', ex_agent2)], ''a2'')"
    by (simp add: ex_defs run_defs)
  have h2: "read_json (jobs_file ex_state) = Inr [(''j1'', ex_job1), (''j2'', ex_job2), (''j3'', ex_job3)]"
    by (simp add: ex_state_def read_json_def)
  have h3: "map_of [(''j1'', ex_job1), (''j2'', ex_job2), (''j3'', ex_job3)]
              (job_id \<lparr>job_id = ''j1'', status = ''done'', output_text = Some ''x''\<rparr>) = Some ex_job1"
    by simp
  have h4: "dict_get ex_job1 ''agent_id'' \<noteq> JStr ''a2''"
    by (simp add: ex_job1_def dict_get_def)
  show ?thesis by (rule report_not_owner[OF h1 h2 h3 h4])
qed

text \<open>
  C5. A \<open>poll_jobs\<close> call authenticated as agent \<open>B\<close> returns no job whose \<open>agent_id\<close> is
  another agent \<open>A\<close>. This holds in every state, so in every reachable one.
\<close>

theorem poll_jobs_other_agent:
  assumes "poll_jobs st x_agent_token now = (st', Inr js)"
    and "agent_auth st x_agent_token = Inr (agents, B)"
    and "dict_get job ''agent_id'' = JStr A"
    and "A \<noteq> B"
  shows "job \<notin> set js"
  using assms by (auto simp: poll_jobs_def Let_def set_pending split: sum.splits)

text \<open>Agent \<open>a2\<close> polls: it gets its own job \<open>j3\<close> and not \<open>j1\<close>.\<close>

theorem poll_jobs_other_agent_witness:
  "snd (poll_jobs ex_state (Some ''t2'') 6) = Inr [ex_job3] \<and> ex_job1 \<notin> set [ex_job3]"
proof -
  have h1s: "snd (poll_jobs ex_state (Some ''t2'') 6) = Inr [ex_job3]"
    by (simp add: poll_jobs_def ex_defs run_defs Let_def)
  then have h1: "poll_jobs ex_state (Some ''t2'') 6 = (fst (poll_jobs ex_state (Some ''t2'') 6), Inr [ex_job3])"
    by (metis prod.collapse)
  have h2: "agent_auth ex_state (Some ''t2'') = Inr ([(''a1'', ex_agent1), (''a2'', ex_agent2)], ''a2'')"
    by (simp add: ex_defs run_defs)
  have h3: "dict_get ex_job1 ''agent_id'' = JStr ''a1''"
    by (simp add: ex_job1_def dict_get_def)
  have h4: "''a1'' \<noteq> ''a2''" by simp
  from poll_jobs_other_agent[OF h1 h2 h3 h4] h1s show ?thesis by simp
qed

section \<open>Creating a job (C6)\<close>

text \<open>
  Once the admin check has passed and both documents have loaded: when the membership
  test \<open>agent_id not in agents\<close> is true, \<open>create_job\<close> fails with 404 and returns the state
  it was given; when the agent is registered, the new record is stored under the new
  \<open>job_id\<close> with \<open>status = pending\<close> and the two clock readings as \<open>created\<close> and \<open>updated\<close>.
\<close>

lemma create_job_spec:
  assumes "require_admin ADMIN_API_TOKEN x_admin_token = Inr ()"
    and "read_json (agents_file st) = Inr agents"
    and "read_json (jobs_file st) = Inr jobs"
  shows "(py_in (dict_get payload ''agent_id'') agents = Inr False \<longrightarrow>
            create_job ADMIN_API_TOKEN st payload x_admin_token jid t1 t2 =
              (st, Inl (HTTPException 404 ''agent not found'')))
       \<and> (py_in (dict_get payload ''agent_id'') agents = Inr True \<longrightarrow>
            (\<exists>job. create_job ADMIN_API_TOKEN st payload x_admin_token jid t1 t2 =
                (st\<lparr>jobs_file := Content (AList.update jid job jobs)\<rparr>, Inr jid) \<and>
              dict_get job ''job_id'' = JStr jid \<and>
              dict_get job ''agent_id'' = dict_get payload ''agent_id'' \<and>
              dict_get job ''status'' = JStr ''pending'' \<and>
              dict_get job ''created'' = JInt t1 \<and> dict_get job ''updated'' = JInt t2))"
  using assms
  apply (simp add: create_job_def Let_def write_json_def)
  apply (intro impI exI conjI)
       apply (rule refl)
      apply (simp_all add: dict_get_Cons)
  done

text \<open>
  C6, the case the code misses. The payload is a \<open>Dict[str, Any]\<close>; when its \<open>agent_id\<close> is
  a JSON array (or object), which is no registered agent, the membership test itself
  raises \<open>TypeError\<close> (unhashable), and the caller gets a 500 and not the 404 of the
  claim. The state is unchanged here as well.
\<close>

theorem create_job_unhashable_agent_id:
  "create_job None ex_state [(''agent_id'', JArr [JStr ''nobody''])] None ''j9'' 7 7 =
     (ex_state, Inl TypeError)"
  by (simp add: create_job_def ex_state_def run_defs Let_def)

section \<open>Loading a document (C7)\<close>

text \<open>
  C7. \<open>read_json\<close> returns the empty mapping when the file is absent, and raises
  \<open>RuntimeError\<close>, never returning a mapping, when the file is there and does not parse.
\<close>

theorem read_json_absent_malformed:
  "read_json Absent = Inr [] \<and> read_json Malformed = Inl RuntimeError \<and>
   (\<forall>d. read_json Malformed \<noteq> Inr d)"
  by (simp add: read_json_def)

section \<open>Bundle round trip (C8)\<close>

text \<open>
  An upload of payload \<open>P\<close> (a file that parses to \<open>P\<close>, or a JSON object \<open>P\<close> as the body)
  that passes the admin check returns the token \<open>env_\<close> followed by the fresh hex
  string. When \<open>P\<close> has no non-finite number and no surrogate, then in every later
  state whose bundle file for that token is the one written, a download by an
  authenticated agent one of whose pending jobs has this \<open>env_token\<close> returns \<open>P\<close>.
\<close>

lemma upload_download_roundtrip:
  assumes "require_admin ADMIN_API_TOKEN x_admin_token = Inr ()"
    and "env_file = Some (Some P) \<or> (env_file = None \<and> env_json = Some d \<and> P = JObj d)"
    and "\<not> non_finite P" and "\<not> has_surrogate P"
    and "CHR ''/'' \<notin> set hex" and "CHR 0x00 \<notin> set hex"
    and "upload_env_file ADMIN_API_TOKEN st env_file env_json x_admin_token hex = (st1, r)"
    and "envs_dir st2 (''env_'' @ hex) = envs_dir st1 (''env_'' @ hex)"
    and "agent_auth st2 x_agent_token = Inr (agents, A)"
    and "read_json (jobs_file st2) = Inr jobs"
    and "(jid, job) \<in> set jobs" and "dict_get job ''agent_id'' = JStr A"
    and "dict_get job ''status'' = JStr ''pending''"
    and "dict_get job ''env_token'' = JStr (''env_'' @ hex)"
  shows "r = Inr (''env_'' @ hex) \<and>
         download_env elsewhere st2 (''env_'' @ hex) x_agent_token = (st2, Inr P)"
proof -
  from assms(11-14) have ref: "references jobs A (''env_'' @ hex)"
    unfolding references_iff by force
  from assms(5,6) have bf: "bundle_file elsewhere st2 (''env_'' @ hex) = envs_dir st2 (''env_'' @ hex)"
    by (simp add: bundle_file_plain)
  from assms(1,2,7) have up: "r = Inr (''env_'' @ hex)" "envs_dir st1 (''env_'' @ hex) = Content P"
    by (auto simp: upload_env_file_def Let_def)
  from assms(3,4) have "JSONResponse P = Inr P" by (simp add: JSONResponse_def)
  with download_env_found[OF assms(9,10) ref, of elsewhere P] bf up assms(8)
  show ?thesis by simp
qed

text \<open>
  C8, the case the code misses. \<open>json.loads\<close> accepts the upload \<open>{"K": 1e999}\<close> and reads the
  number as infinity; the upload returns the token \<open>env_x\<close>. Agent \<open>a1\<close>, whose pending job
  \<open>j1\<close> refers to \<open>env_x\<close>, downloads it: \<open>json.load\<close> returns the value and \<open>JSONResponse\<close>
  raises \<open>ValueError\<close>. The same happens, with \<open>UnicodeEncodeError\<close>, for the upload
  \<open>{"K": "\ud800"}\<close>. No download returns these payloads.
\<close>

theorem upload_download_unrenderable:
  "upload_env_file None ex_state (Some (Some (JObj [(''K'', JFloat PosInfinity)]))) None None ''x'' =
     (ex_state\<lparr>envs_dir := (envs_dir ex_state)(''env_x'' := Content (JObj [(''K'', JFloat PosInfinity)]))\<rparr>,
      Inr ''env_x'') \<and>
   download_env (\<lambda>p. Absent)
      (ex_state\<lparr>envs_dir := (envs_dir ex_state)(''env_x'' := Content (JObj [(''K'', JFloat PosInfinity)]))\<rparr>)
      ''env_x'' (Some ''t1'') =
     (ex_state\<lparr>envs_dir := (envs_dir ex_state)(''env_x'' := Content (JObj [(''K'', JFloat PosInfinity)]))\<rparr>,
      Inl ValueError) \<and>
   upload_env_file None ex_state (Some (Some (JObj [(''K'', JStr [CHR 0xED, CHR 0xA0, CHR 0x80])]))) None None ''x'' =
     (ex_state\<lparr>envs_dir := (envs_dir ex_state)
          (''env_x'' := Content (JObj [(''K'', JStr [CHR 0xED, CHR 0xA0, CHR 0x80])]))\<rparr>,
      Inr ''env_x'') \<and>
   download_env (\<lambda>p. Absent)
      (ex_state\<lparr>envs_dir := (envs_dir ex_state)
          (''env_x'' := Content (JObj [(''K'', JStr [CHR 0xED, CHR 0xA0, CHR 0x80])]))\<rparr>)
      ''env_x'' (Some ''t1'') =
     (ex_state\<lparr>envs_dir := (envs_dir ex_state)
          (''env_x'' := Content (JObj [(''K'', JStr [CHR 0xED, CHR 0xA0, CHR 0x80])]))\<rparr>,
      Inl UnicodeEncodeError)"
  by (simp add: upload_env_file_def download_env_def bundle_file_def locate_def JSONResponse_def
        Let_def ex_defs run_defs)

section \<open>What a poll changes (C9)\<close>

text \<open>
  C9. A successful \<open>poll_jobs\<close> leaves the jobs document and the bundles as they were.
  In the agents document the keys and their order stay, every other agent's record
  stays, and in the caller's record only \<open>last_seen\<close> is set (appended when the record
  had none): every other field keeps its value.
\<close>

theorem poll_jobs_frame:
  assumes "poll_jobs st x_agent_token now = (st', Inr js)"
  shows "jobs_file st' = jobs_file st \<and> envs_dir st' = envs_dir st \<and>
         (\<exists>agents agent_id a agents' a'.
            agent_auth st x_agent_token = Inr (agents, agent_id) \<and>
            agents_file st = Content agents \<and> map_of agents agent_id = Some a \<and>
            agents_file st' = Content agents' \<and> map_of agents' agent_id = Some a' \<and>
            map fst agents' = map fst agents \<and>
            (\<forall>other. other \<noteq> agent_id \<longrightarrow> map_of agents' other = map_of agents other) \<and>
            map fst a' = map fst a @ (if ''last_seen'' \<in> fst ` set a then [] else [''last_seen'']) \<and>
            (\<forall>field. field \<noteq> ''last_seen'' \<longrightarrow> map_of a' field = map_of a field))"
proof -
  from assms obtain agents A where auth: "agent_auth st x_agent_token = Inr (agents, A)"
    and st': "st' = st\<lparr>agents_file := write_json (touch agents A now)\<rparr>"
    by (auto simp: poll_jobs_def Let_def split: sum.splits)
  from auth have af: "agents_file st = Content agents" and key: "A \<in> fst ` set agents"
    by (simp_all add: agent_auth_key)
  from key obtain a where a: "map_of agents A = Some a"
    by (metis domD dom_map_of_conv_image_fst)
  let ?a' = "AList.update ''last_seen'' (JInt now) a"
  have t: "touch agents A now = AList.update A ?a' agents"
    using a by (simp add: touch_def)
  have 1: "jobs_file st' = jobs_file st \<and> envs_dir st' = envs_dir st" by (simp add: st')
  have 2: "agents_file st' = Content (touch agents A now)" by (simp add: st' write_json_def)
  have 3: "map_of (touch agents A now) A = Some ?a'" by (simp add: t update_conv')
  have 4: "map fst (touch agents A now) = map fst agents"
    using key by (simp add: t update_keys_present)
  have 5: "\<forall>other. other \<noteq> A \<longrightarrow> map_of (touch agents A now) other = map_of agents other"
    by (simp add: t update_conv')
  have 6: "map fst ?a' = map fst a @ (if ''last_seen'' \<in> fst ` set a then [] else [''last_seen''])"
    by (simp add: update_keys)
  have 7: "\<forall>field. field \<noteq> ''last_seen'' \<longrightarrow> map_of ?a' field = map_of a field"
    by (simp add: update_conv')
  from auth af a 1 2 3 4 5 6 7 show ?thesis by blast
qed

text \<open>Agent \<open>a1\<close> polls at time 9.\<close>

theorem poll_jobs_frame_witness:
  "snd (poll_jobs ex_state (Some ''t1'') 9) = Inr [ex_job1, ex_job2] \<and>
   jobs_file (fst (poll_jobs ex_state (Some ''t1'') 9)) = jobs_file ex_state \<and>
   envs_dir (fst (poll_jobs ex_state (Some ''t1'') 9)) = envs_dir ex_state \<and>
   agents_file (fst (poll_jobs ex_state (Some ''t1'') 9)) =
     Content [(''a1'', AList.update ''last_seen'' (JInt 9) ex_agent1), (''a2'', ex_agent2)]"
proof -
  have s: "snd (poll_jobs ex_state (Some ''t1'') 9) = Inr [ex_job1, ex_job2]"
    by (simp add: poll_jobs_def ex_defs run_defs Let_def)
  then have h: "poll_jobs ex_state (Some ''t1'') 9 = (fst (poll_jobs ex_state (Some ''t1'') 9), Inr [ex_job1, ex_job2])"
    by (metis prod.collapse)
  have a: "agents_file (fst (poll_jobs ex_state (Some ''t1'') 9)) =
     Content [(''a1'', AList.update ''last_seen'' (JInt 9) ex_agent1), (''a2'', ex_agent2)]"
    by (simp add: poll_jobs_def ex_defs run_defs Let_def)
  from poll_jobs_frame[OF h] s a show ?thesis by simp
qed

end
